theory Spec2Isabelle
  imports Main "HOL-Library.Multiset" "HOL-Library.Sublist" "HOL-Library.AList" "HOL-Library.Word"
begin

section \<open>Strings, paths and patterns\<close>

text \<open>
  The keyboard firmware loader (\<^verbatim>\<open>src/index.ts\<close>) is a sequential script over the file
  system. The strings the script handles (paths, names, messages) are lists of \<^typ>\<open>char\<close>; a
  \<^typ>\<open>char\<close> stands for one code unit below 256, which covers every character the script's
  literals mention. Where the script tests a name against a pattern, the name is taken as its
  sequence of UTF-16 code units, and what is proved of the patterns is proved of every sequence
  of code units.
\<close>

type_synonym path = string
type_synonym bytes = "8 word list"

text \<open>\<^verbatim>\<open>String.prototype.endsWith\<close>.\<close>

definition endsWith :: "string \<Rightarrow> string \<Rightarrow> bool" where
  "endsWith s searchString =
     (length searchString \<le> length s \<and> drop (length s - length searchString) s = searchString)"

text \<open>Decimal rendering of a number inside a template literal.\<close>

definition digit_char :: "nat \<Rightarrow> char" where
  "digit_char d = ''0123456789'' ! d"

function show_digits :: "int \<Rightarrow> string" where
  "show_digits n =
     (if n < 10 then [digit_char (nat n)] else show_digits (n div 10) @ [digit_char (nat (n mod 10))])"
  by pat_completeness auto
termination
  by (relation "measure nat") auto

definition show_int :: "int \<Rightarrow> string" where
  "show_int i = (if i < 0 then CHR ''-'' # show_digits (- i) else show_digits i)"

definition show_nat :: "nat \<Rightarrow> string" where
  "show_nat n = show_digits (int n)"

text \<open>
  \<^verbatim>\<open>path.join\<close>, \<^verbatim>\<open>path.basename\<close> and \<^verbatim>\<open>path.dirname\<close> of Node's POSIX flavour (the volume
  path \<^verbatim>\<open>/Volumes/NICENANO\<close> fixes the platform): join the non-empty arguments with a slash and
  normalise, resolving empty, \<^verbatim>\<open>.\<close> and \<^verbatim>\<open>..\<close> segments.
\<close>

fun split_on :: "char \<Rightarrow> string \<Rightarrow> string list" where
  "split_on sep [] = [[]]"
| "split_on sep (c # cs) =
     (if c = sep then [] # split_on sep cs
      else (case split_on sep cs of [] \<Rightarrow> [[c]] | seg # segs \<Rightarrow> (c # seg) # segs))"

definition join_with :: "string \<Rightarrow> string list \<Rightarrow> string" where
  "join_with sep xs = (case xs of [] \<Rightarrow> [] | x # rest \<Rightarrow> x @ concat (map (\<lambda>y. sep @ y) rest))"

fun normalize_segments :: "bool \<Rightarrow> string list \<Rightarrow> string list \<Rightarrow> string list" where
  "normalize_segments allowAboveRoot [] res = res"
| "normalize_segments allowAboveRoot (seg # segs) res =
     (if seg = [] \<or> seg = ''.'' then normalize_segments allowAboveRoot segs res
      else if seg = ''..'' then
        (if res \<noteq> [] \<and> last res \<noteq> ''..'' then normalize_segments allowAboveRoot segs (butlast res)
         else if allowAboveRoot then normalize_segments allowAboveRoot segs (res @ [''..''])
         else normalize_segments allowAboveRoot segs res)
      else normalize_segments allowAboveRoot segs (res @ [seg]))"

definition path_normalize :: "path \<Rightarrow> path" where
  "path_normalize p =
     (if p = [] then ''.''
      else
        let isAbsolute = (hd p = CHR ''/'');
            trailingSeparator = (last p = CHR ''/'');
            q = join_with ''/'' (normalize_segments (\<not> isAbsolute) (split_on CHR ''/'' p) [])
        in if q = [] then (if isAbsolute then ''/'' else if trailingSeparator then ''./'' else ''.'')
           else (if isAbsolute then ''/'' else []) @ q @ (if trailingSeparator then ''/'' else []))"

definition path_join :: "path list \<Rightarrow> path" where
  "path_join args =
     (let joined = join_with ''/'' (filter (\<lambda>a. a \<noteq> []) args)
      in if joined = [] then ''.'' else path_normalize joined)"

definition path_basename :: "path \<Rightarrow> string" where
  "path_basename p =
     rev (takeWhile (\<lambda>c. c \<noteq> CHR ''/'') (dropWhile (\<lambda>c. c = CHR ''/'') (rev p)))"

definition path_dirname :: "path \<Rightarrow> path" where
  "path_dirname p =
     (let q = dropWhile (\<lambda>c. c = CHR ''/'') (rev p);
          r = dropWhile (\<lambda>c. c \<noteq> CHR ''/'') q;
          d = dropWhile (\<lambda>c. c = CHR ''/'') r
      in if d = [] then (if r \<noteq> [] \<or> (p \<noteq> [] \<and> q = []) then ''/'' else ''.'') else rev d)"

text \<open>
  Regular expressions, as far as the two firmware patterns need them: literal characters,
  the dot, a starred atom and the end anchor \<^verbatim>\<open>$\<close>, all under the \<^verbatim>\<open>i\<close> flag and without the
  \<^verbatim>\<open>u\<close> flag. A pattern is matched against the UTF-16 code units of a string; a code unit is a
  number below 65536, and \<open>code_units\<close> gives the code units of a string of the model.

  Under the \<^verbatim>\<open>i\<close> flag two code units match when their canonical forms agree. ECMAScript's
  \<^verbatim>\<open>Canonicalize\<close> maps a code unit below 128 to its ASCII upper-case form, and a code unit from
  128 on to a code unit from 128 on. For a pattern character below 128 (the patterns of the script
  have no other, see \<open>pattern_characters_ascii\<close>) the test of \<open>atom_matches\<close> is therefore exact
  with \<open>canonicalize\<close> as below, which leaves the code units from 128 on alone. The dot matches
  every code unit except the four line terminators: line feed, carriage return, line separator
  (\<^verbatim>\<open>U+2028\<close>) and paragraph separator (\<^verbatim>\<open>U+2029\<close>).
\<close>

type_synonym code_unit = nat

definition code_units :: "string \<Rightarrow> code_unit list" where
  "code_units s = map of_char s"

datatype atom = Chr char | AnyChar
datatype piece = One atom | Star atom | EndOfInput

type_synonym regex = "piece list"

definition canonicalize :: "code_unit \<Rightarrow> code_unit" where
  "canonicalize c = (if 97 \<le> c \<and> c \<le> 122 then c - 32 else c)"

definition line_terminator :: "code_unit \<Rightarrow> bool" where
  "line_terminator c = (c = 0x0A \<or> c = 0x0D \<or> c = 0x2028 \<or> c = 0x2029)"

fun atom_matches :: "atom \<Rightarrow> code_unit \<Rightarrow> bool" where
  "atom_matches (Chr p) c = (canonicalize c = canonicalize (of_char p))"
| "atom_matches AnyChar c = (\<not> line_terminator c)"

fun match_here :: "regex \<Rightarrow> code_unit list \<Rightarrow> bool" where
  "match_here [] s = True"
| "match_here (EndOfInput # ps) s = (s = [] \<and> match_here ps s)"
| "match_here (One a # ps) s =
     (case s of [] \<Rightarrow> False | c # cs \<Rightarrow> atom_matches a c \<and> match_here ps cs)"
| "match_here (Star a # ps) s =
     (match_here ps s \<or> (case s of [] \<Rightarrow> False | c # cs \<Rightarrow> atom_matches a c \<and> match_here (Star a # ps) cs))"

text \<open>\<^verbatim>\<open>RegExp.prototype.test\<close>: a match may start at any position of the string.\<close>

fun regex_test :: "regex \<Rightarrow> code_unit list \<Rightarrow> bool" where
  "regex_test re [] = match_here re []"
| "regex_test re (c # cs) = (match_here re (c # cs) \<or> regex_test re cs)"

definition literal :: "string \<Rightarrow> regex" where
  "literal s = map (\<lambda>c. One (Chr c)) s"

text \<open>\<^verbatim>\<open>pattern.test(file)\<close> for a string of the model.\<close>

definition pattern_test :: "regex \<Rightarrow> string \<Rightarrow> bool" where
  "pattern_test re file = regex_test re (code_units file)"

text \<open>\<^verbatim>\<open>/sofle_left.*\.uf2$/i\<close> and \<^verbatim>\<open>/sofle_right.*\.uf2$/i\<close>.\<close>

definition LEFT_FIRMWARE_PATTERN :: regex where
  "LEFT_FIRMWARE_PATTERN = literal ''sofle_left'' @ [Star AnyChar] @ literal ''.uf2'' @ [EndOfInput]"

definition RIGHT_FIRMWARE_PATTERN :: regex where
  "RIGHT_FIRMWARE_PATTERN = literal ''sofle_right'' @ [Star AnyChar] @ literal ''.uf2'' @ [EndOfInput]"

definition NICENANO_VOLUME :: path where
  "NICENANO_VOLUME = ''/Volumes/NICENANO''"

section \<open>The file system and the outside world\<close>

text \<open>
  The script talks to the file system, a timer, the terminal and the operator. The model makes
  that world explicit. The file system is an association list from normalised absolute paths to
  nodes. A file is either plain bytes or an archive, kept as the list of its entries, each a
  name as the archive records it (a relative path; a name that ends in a slash is a directory)
  and a content; an archive that cannot be decoded is a plain file. Failures are values of
  \<open>error\<close>.
\<close>

datatype error =
    ENOENT path
  | ENOTDIR path
  | EISDIR path
  | EACCES path
  | EINVAL path
  | BadArchive path
  | PromptClosed
  | JsError string

datatype body = Regular bytes | Archive "(string \<times> bytes) list" | Directory

datatype node = Node (n_mtime: int) (n_readable: bool) (n_writable: bool) (n_body: body)

type_synonym filesystem = "(path \<times> node) list"

datatype access_mode = F_OK | W_OK

datatype call =
    Access path access_mode
  | Readdir path
  | Stat path
  | EnsureDir path
  | ExtractZip path path
  | Remove path
  | Copy path path
  | UnlinkSync path
  | SetTimeout nat
  | Prompt string

datatype console_line = ConsoleLog string | ConsoleWarn string | ConsoleError string "error option"

text \<open>
  Every asynchronous call is a point where the outside world may act: a keyboard half is plugged
  in or pulled out, a file appears or loses a permission. \<open>outside w n\<close> is what the outside does
  to the file system at the \<open>n\<close>-th such point; \<open>ticks\<close> counts them. \<open>trace\<close> lists the calls made
  so far with their failures, \<open>console\<close> the lines printed. The order in which a directory's
  names are listed is the file system's own business and need not be the order in which the
  entries were made: \<open>listingOrder\<close> is the arrangement it gives to the names of a directory. The
  operator's answers to the two prompts are \<open>listAnswer\<close> (an index into the choices) and
  \<open>confirmAnswer\<close>; \<open>None\<close> is a prompt that is closed without an answer.
\<close>

record world =
  disk :: filesystem
  outside :: "nat \<Rightarrow> filesystem \<Rightarrow> filesystem"
  ticks :: nat
  clock :: int
  trace :: "(call \<times> error option) list"
  console :: "console_line list"
  homedir :: path
  tmpdir :: path
  listAnswer :: "nat option"
  confirmAnswer :: "bool option"
  listingOrder :: "string list \<Rightarrow> string list"

definition await :: "world \<Rightarrow> world" where
  "await w = w\<lparr>disk := outside w (ticks w) (disk w), ticks := Suc (ticks w)\<rparr>"

definition record_call :: "call \<Rightarrow> error option \<Rightarrow> world \<Rightarrow> world" where
  "record_call c r w = w\<lparr>trace := trace w @ [(c, r)]\<rparr>"

definition failure :: "error + 'a \<Rightarrow> error option" where
  "failure r = (case r of Inl e \<Rightarrow> Some e | Inr x \<Rightarrow> None)"

definition observe :: "call \<Rightarrow> (filesystem \<Rightarrow> error + 'a) \<Rightarrow> world \<Rightarrow> (error + 'a) \<times> world" where
  "observe c f w = (let w1 = await w; r = f (disk w1) in (r, record_call c (failure r) w1))"

definition mutate ::
  "call \<Rightarrow> (filesystem \<Rightarrow> error + filesystem) \<Rightarrow> world \<Rightarrow> (error + unit) \<times> world" where
  "mutate c f w =
     (let w1 = await w
      in case f (disk w1) of
           Inl e \<Rightarrow> (Inl e, record_call c (Some e) w1)
         | Inr d \<Rightarrow> (Inr (), record_call c None (w1\<lparr>disk := d\<rparr>)))"

subsection \<open>What the calls do to a file system\<close>

definition access_check :: "path \<Rightarrow> access_mode \<Rightarrow> filesystem \<Rightarrow> error + unit" where
  "access_check p m d =
     (case map_of d p of
        None \<Rightarrow> Inl (ENOENT p)
      | Some n \<Rightarrow> if m = W_OK \<and> \<not> n_writable n then Inl (EACCES p) else Inr ())"

definition child_name :: "path \<Rightarrow> path \<Rightarrow> string option" where
  "child_name dir p =
     (let pre = (if dir = ''/'' then dir else dir @ ''/''); r = drop (length pre) p
      in if prefix pre p \<and> r \<noteq> [] \<and> CHR ''/'' \<notin> set r then Some r else None)"

definition list_dir :: "filesystem \<Rightarrow> path \<Rightarrow> string list" where
  "list_dir d dir = List.map_filter (\<lambda>(p, n). child_name dir p) d"

definition readdir_check :: "path \<Rightarrow> filesystem \<Rightarrow> error + string list" where
  "readdir_check p d =
     (case map_of d p of
        None \<Rightarrow> Inl (ENOENT p)
      | Some n \<Rightarrow>
          if n_body n \<noteq> Directory then Inl (ENOTDIR p)
          else if \<not> n_readable n then Inl (EACCES p)
          else Inr (list_dir d p))"

definition stat_check :: "path \<Rightarrow> filesystem \<Rightarrow> error + int" where
  "stat_check p d = (case map_of d p of None \<Rightarrow> Inl (ENOENT p) | Some n \<Rightarrow> Inr (n_mtime n))"

definition is_writable_dir :: "filesystem \<Rightarrow> path \<Rightarrow> bool" where
  "is_writable_dir d p =
     (case map_of d p of None \<Rightarrow> False | Some n \<Rightarrow> n_body n = Directory \<and> n_writable n)"

definition under :: "path \<Rightarrow> path \<Rightarrow> bool" where
  "under dir p = (p = dir \<or> prefix (dir @ ''/'') p)"

text \<open>\<^verbatim>\<open>fs.ensureDir\<close> (\<^verbatim>\<open>mkdir -p\<close>): missing ancestors are created from the top down.\<close>

function mkdirs :: "int \<Rightarrow> path \<Rightarrow> filesystem \<Rightarrow> error + filesystem" where
  "mkdirs now p d =
     (case map_of d p of
        Some n \<Rightarrow> if n_body n = Directory then Inr d else Inl (ENOTDIR p)
      | None \<Rightarrow>
          if length (path_dirname p) < length p then
            (case mkdirs now (path_dirname p) d of
               Inl e \<Rightarrow> Inl e
             | Inr d1 \<Rightarrow>
                 if is_writable_dir d1 (path_dirname p)
                 then Inr (AList.update p (Node now True True Directory) d1)
                 else Inl (EACCES p))
          else Inl (ENOENT p))"
  by pat_completeness auto
termination
  by (relation "measure (\<lambda>(now, p, d). length p)") auto

text \<open>\<^verbatim>\<open>fs.remove\<close> (\<^verbatim>\<open>rm -rf\<close>): a missing path is not an error.\<close>

definition exists_under :: "filesystem \<Rightarrow> path \<Rightarrow> bool" where
  "exists_under d p = list_ex (\<lambda>(q, m). under p q) d"

definition remove_tree :: "path \<Rightarrow> filesystem \<Rightarrow> error + filesystem" where
  "remove_tree p d =
     (if exists_under d p then
        (if is_writable_dir d (path_dirname p) then Inr (filter (\<lambda>(q, m). \<not> under p q) d)
         else Inl (EACCES p))
      else Inr d)"

definition unlink_file :: "path \<Rightarrow> filesystem \<Rightarrow> error + filesystem" where
  "unlink_file p d =
     (case map_of d p of
        None \<Rightarrow> Inl (ENOENT p)
      | Some n \<Rightarrow>
          if n_body n = Directory then Inl (EISDIR p)
          else if is_writable_dir d (path_dirname p) then Inr (filter (\<lambda>(q, m). q \<noteq> p) d)
          else Inl (EACCES p))"

text \<open>
  \<^verbatim>\<open>fs.copy\<close> with its default options (an existing destination file is overwritten, a missing
  destination directory is created, a directory is copied with everything under it). The copy
  carries the source's content and permissions and the time of the copy.
\<close>

definition copy_node :: "int \<Rightarrow> path \<Rightarrow> path \<Rightarrow> filesystem \<Rightarrow> error + filesystem" where
  "copy_node now src dest d =
     (case map_of d src of
        None \<Rightarrow> Inl (ENOENT src)
      | Some sn \<Rightarrow>
          if src = dest then Inl (EINVAL dest)
          else if n_body sn = Directory then
            (if under src dest then Inl (EINVAL dest)
             else if (case map_of d dest of None \<Rightarrow> False | Some dn \<Rightarrow> n_body dn \<noteq> Directory)
               then Inl (ENOTDIR dest)
             else
               (case mkdirs now (path_dirname dest) d of
                  Inl e \<Rightarrow> Inl e
                | Inr d1 \<Rightarrow>
                    if \<not> n_readable sn then Inl (EACCES src)
                    else if \<not> is_writable_dir d1 (path_dirname dest) then Inl (EACCES dest)
                    else Inr (foldl (\<lambda>acc (q, n). AList.update (dest @ drop (length src) q)
                                (Node now (n_readable n) (n_writable n) (n_body n)) acc)
                              d1 (filter (\<lambda>(q, n). under src q) d))))
          else
            (if (case map_of d dest of None \<Rightarrow> False | Some dn \<Rightarrow> n_body dn = Directory)
               then Inl (EISDIR dest)
             else
               (case mkdirs now (path_dirname dest) d of
                  Inl e \<Rightarrow> Inl e
                | Inr d1 \<Rightarrow>
                    if \<not> n_readable sn then Inl (EACCES src)
                    else if \<not> is_writable_dir d1 (path_dirname dest) then Inl (EACCES dest)
                    else Inr (AList.update dest
                                (Node now (n_readable sn) (n_writable sn) (n_body sn)) d1))))"

text \<open>
  \<^verbatim>\<open>extract-zip\<close>, the library behind \<^verbatim>\<open>extract(zipFilePath, { dir })\<close>. The target directory must
  be absolute and is made first. The entries are then unpacked one after the other, in the
  order of the archive. The archive reader turns the backslashes of a name into slashes and
  refuses an absolute name and a name with a \<^verbatim>\<open>..\<close> segment; an entry below \<^verbatim>\<open>__MACOSX/\<close> is
  passed over; for any other entry the directories on the way to it are made, and then the entry itself, a directory when
  the name ends in a slash and a file with the entry's content otherwise. The first failure ends
  the unpacking and leaves what was unpacked before it. Symbolic links and the permission bits
  recorded in an archive are not part of the model.
\<close>

definition entry_skipped :: "string \<Rightarrow> bool" where
  "entry_skipped name = prefix ''__MACOSX/'' name"

definition ascii_letter :: "char \<Rightarrow> bool" where
  "ascii_letter c =
     (let n = (of_char c :: nat) in (65 \<le> n \<and> n \<le> 90) \<or> (97 \<le> n \<and> n \<le> 122))"

definition entry_name :: "string \<Rightarrow> string" where
  "entry_name raw = map (\<lambda>c. if c = CHR 0x5C then CHR ''/'' else c) raw"

definition entry_name_valid :: "string \<Rightarrow> bool" where
  "entry_name_valid name =
     (\<not> prefix ''/'' name \<and>
      \<not> (case name of a # b # rest \<Rightarrow> ascii_letter a \<and> b = CHR '':'' | _ \<Rightarrow> False) \<and>
      ''..'' \<notin> set (split_on CHR ''/'' name))"

definition write_file :: "int \<Rightarrow> path \<Rightarrow> bytes \<Rightarrow> filesystem \<Rightarrow> error + filesystem" where
  "write_file now dest content d =
     (case map_of d dest of
        Some n \<Rightarrow>
          if n_body n = Directory then Inl (EISDIR dest)
          else if \<not> n_writable n then Inl (EACCES dest)
          else Inr (AList.update dest (Node now (n_readable n) (n_writable n) (Regular content)) d)
      | None \<Rightarrow>
          if is_writable_dir d (path_dirname dest)
          then Inr (AList.update dest (Node now True True (Regular content)) d)
          else Inl (EACCES dest))"

definition unzip_entry ::
  "int \<Rightarrow> path \<Rightarrow> path \<Rightarrow> string \<times> bytes \<Rightarrow> filesystem \<Rightarrow> error option \<times> filesystem" where
  "unzip_entry now zipPath dir entry d =
     (let fileName = entry_name (fst entry); dest = path_join [dir, fileName]
      in if \<not> entry_name_valid fileName then (Some (BadArchive zipPath), d)
         else if entry_skipped fileName then (None, d)
         else
           (case mkdirs now (path_dirname dest) d of
              Inl e \<Rightarrow> (Some e, d)
            | Inr d1 \<Rightarrow>
                if endsWith fileName ''/'' then
                  (case mkdirs now (path_join [path_dirname dest, path_basename dest]) d1 of
                     Inl e \<Rightarrow> (Some e, d1)
                   | Inr d2 \<Rightarrow> (None, d2))
                else
                  (case write_file now dest (snd entry) d1 of
                     Inl e \<Rightarrow> (Some e, d1)
                   | Inr d2 \<Rightarrow> (None, d2))))"

fun unzip_entries ::
  "int \<Rightarrow> path \<Rightarrow> path \<Rightarrow> (string \<times> bytes) list \<Rightarrow> filesystem \<Rightarrow> error option \<times> filesystem" where
  "unzip_entries now zipPath dir [] d = (None, d)"
| "unzip_entries now zipPath dir (entry # rest) d =
     (case unzip_entry now zipPath dir entry d of
        (Some e, d1) \<Rightarrow> (Some e, d1)
      | (None, d1) \<Rightarrow> unzip_entries now zipPath dir rest d1)"

definition unzip_into :: "int \<Rightarrow> path \<Rightarrow> path \<Rightarrow> filesystem \<Rightarrow> error option \<times> filesystem" where
  "unzip_into now zipPath dir d =
     (if \<not> prefix ''/'' dir then (Some (JsError ''Target directory is expected to be absolute''), d)
      else
        (case mkdirs now dir d of
           Inl e \<Rightarrow> (Some e, d)
         | Inr d0 \<Rightarrow>
             (case map_of d0 zipPath of
                None \<Rightarrow> (Some (ENOENT zipPath), d0)
              | Some n \<Rightarrow>
                  (case n_body n of
                     Archive entries \<Rightarrow>
                       if \<not> n_readable n then (Some (EACCES zipPath), d0)
                       else unzip_entries now zipPath dir entries d0
                   | Regular b \<Rightarrow> (Some (BadArchive zipPath), d0)
                   | Directory \<Rightarrow> (Some (EISDIR zipPath), d0)))))"

subsection \<open>The calls\<close>

definition fs_access :: "path \<Rightarrow> access_mode \<Rightarrow> world \<Rightarrow> (error + unit) \<times> world" where
  "fs_access p m = observe (Access p m) (access_check p m)"

definition fs_readdir :: "path \<Rightarrow> world \<Rightarrow> (error + string list) \<times> world" where
  "fs_readdir p w =
     observe (Readdir p)
       (\<lambda>d. case readdir_check p d of Inl e \<Rightarrow> Inl e | Inr names \<Rightarrow> Inr (listingOrder w names)) w"

definition fs_stat :: "path \<Rightarrow> world \<Rightarrow> (error + int) \<times> world" where
  "fs_stat p = observe (Stat p) (stat_check p)"

definition fs_ensureDir :: "path \<Rightarrow> world \<Rightarrow> (error + unit) \<times> world" where
  "fs_ensureDir p w = mutate (EnsureDir p) (mkdirs (clock w) p) w"

definition fs_remove :: "path \<Rightarrow> world \<Rightarrow> (error + unit) \<times> world" where
  "fs_remove p = mutate (Remove p) (remove_tree p)"

definition fs_copy :: "path \<Rightarrow> path \<Rightarrow> world \<Rightarrow> (error + unit) \<times> world" where
  "fs_copy src dest w = mutate (Copy src dest) (copy_node (clock w) src dest) w"

definition fs_unlinkSync :: "path \<Rightarrow> world \<Rightarrow> (error + unit) \<times> world" where
  "fs_unlinkSync p = mutate (UnlinkSync p) (unlink_file p)"

definition extract_zip :: "path \<Rightarrow> path \<Rightarrow> world \<Rightarrow> (error + unit) \<times> world" where
  "extract_zip zipPath dir w =
     (let w1 = await w;
          (r, d) = unzip_into (clock w) zipPath dir (disk w1)
      in (case r of Some e \<Rightarrow> Inl e | None \<Rightarrow> Inr (),
          record_call (ExtractZip zipPath dir) r (w1\<lparr>disk := d\<rparr>)))"

text \<open>\<^verbatim>\<open>await new Promise(resolve => setTimeout(resolve, ms))\<close>.\<close>

definition sleep :: "nat \<Rightarrow> world \<Rightarrow> world" where
  "sleep ms w = record_call (SetTimeout ms) None ((await w)\<lparr>clock := clock w + int ms\<rparr>)"

definition console_log :: "string \<Rightarrow> world \<Rightarrow> world" where
  "console_log msg w = w\<lparr>console := console w @ [ConsoleLog msg]\<rparr>"

definition console_warn :: "string \<Rightarrow> world \<Rightarrow> world" where
  "console_warn msg w = w\<lparr>console := console w @ [ConsoleWarn msg]\<rparr>"

definition console_error :: "string \<Rightarrow> error option \<Rightarrow> world \<Rightarrow> world" where
  "console_error msg e w = w\<lparr>console := console w @ [ConsoleError msg e]\<rparr>"

text \<open>The two \<^verbatim>\<open>inquirer\<close> prompts: a single choice from a list, and a yes/no question.\<close>

definition prompt_list :: "string \<Rightarrow> (string \<times> path) list \<Rightarrow> world \<Rightarrow> (error + path) \<times> world" where
  "prompt_list message choices w =
     (let w1 = await w
      in case listAnswer w1 of
           None \<Rightarrow> (Inl PromptClosed, record_call (Prompt message) (Some PromptClosed) w1)
         | Some i \<Rightarrow>
             if i < length choices then (Inr (snd (choices ! i)), record_call (Prompt message) None w1)
             else (Inl PromptClosed, record_call (Prompt message) (Some PromptClosed) w1))"

definition prompt_confirm :: "string \<Rightarrow> world \<Rightarrow> (error + bool) \<times> world" where
  "prompt_confirm message w =
     (let w1 = await w
      in case confirmAnswer w1 of
           None \<Rightarrow> (Inl PromptClosed, record_call (Prompt message) (Some PromptClosed) w1)
         | Some b \<Rightarrow> (Inr b, record_call (Prompt message) None w1))"

section \<open>The script\<close>

datatype side = Left | Right

definition side_name :: "side \<Rightarrow> string" where
  "side_name s = (case s of Left \<Rightarrow> ''left'' | Right \<Rightarrow> ''right'')"

definition side_upper :: "side \<Rightarrow> string" where
  "side_upper s = (case s of Left \<Rightarrow> ''LEFT'' | Right \<Rightarrow> ''RIGHT'')"

definition DOWNLOADS_FOLDER :: "world \<Rightarrow> path" where
  "DOWNLOADS_FOLDER w = path_join [homedir w, ''Downloads'', ''Personal'']"

text \<open>
  \<^verbatim>\<open>formatRelativeTime\<close>; the current time, which the source reads from \<^verbatim>\<open>new Date()\<close>, is the
  first argument. \<^verbatim>\<open>Math.floor\<close> of a quotient is \<open>div\<close> on \<^typ>\<open>int\<close>.
\<close>

definition plural :: "int \<Rightarrow> string \<Rightarrow> string" where
  "plural n unit = show_int n @ '' '' @ unit @ (if n = 1 then [] else ''s'') @ '' ago''"

definition formatRelativeTime :: "int \<Rightarrow> int \<Rightarrow> string" where
  "formatRelativeTime now date =
     (let diffMs = now - date;
          diffSec = diffMs div 1000;
          diffMin = diffSec div 60;
          diffHour = diffMin div 60;
          diffDay = diffHour div 24
      in if diffDay > 0 then plural diffDay ''day''
         else if diffHour > 0 then plural diffHour ''hour''
         else if diffMin > 0 then plural diffMin ''minute''
         else ''just now'')"

record FileInfo =
  fi_name :: string
  fi_path :: path
  fi_mtime :: int
  fi_relativeTime :: string

text \<open>
  \<^verbatim>\<open>Array.prototype.sort\<close> with a comparator: a stable sort, here by insertion. An element goes
  in front of the first one it does not compare greater than.
\<close>

fun js_insert :: "('a \<Rightarrow> 'a \<Rightarrow> int) \<Rightarrow> 'a \<Rightarrow> 'a list \<Rightarrow> 'a list" where
  "js_insert cmp x [] = [x]"
| "js_insert cmp x (y # ys) = (if cmp x y \<le> 0 then x # y # ys else y # js_insert cmp x ys)"

definition js_sort :: "('a \<Rightarrow> 'a \<Rightarrow> int) \<Rightarrow> 'a list \<Rightarrow> 'a list" where
  "js_sort cmp xs = foldr (js_insert cmp) xs []"

text \<open>
  The \<^verbatim>\<open>Promise.all\<close> over the candidates: every candidate is examined, and the first failure is
  the failure of the whole.
\<close>

fun stat_all :: "path \<Rightarrow> string list \<Rightarrow> world \<Rightarrow> (error + FileInfo list) \<times> world" where
  "stat_all dir [] w = (Inr [], w)"
| "stat_all dir (file # rest) w =
     (let filePath = path_join [dir, file]
      in case fs_stat filePath w of
           (Inl e, w1) \<Rightarrow> (Inl e, snd (stat_all dir rest w1))
         | (Inr mt, w1) \<Rightarrow>
             (let info = \<lparr>fi_name = file, fi_path = filePath, fi_mtime = mt,
                          fi_relativeTime = formatRelativeTime (clock w1) mt\<rparr>
              in case stat_all dir rest w1 of
                   (Inl e, w2) \<Rightarrow> (Inl e, w2)
                 | (Inr infos, w2) \<Rightarrow> (Inr (info # infos), w2)))"

definition getZipFiles_try :: "world \<Rightarrow> (error + FileInfo list) \<times> world" where
  "getZipFiles_try w =
     (case fs_readdir (DOWNLOADS_FOLDER w) w of
        (Inl e, w1) \<Rightarrow> (Inl e, w1)
      | (Inr files, w1) \<Rightarrow>
          (let zipFiles = filter (\<lambda>file. endsWith file ''.zip'') files
           in case stat_all (DOWNLOADS_FOLDER w) zipFiles w1 of
                (Inl e, w2) \<Rightarrow> (Inl e, w2)
              | (Inr fileStats, w2) \<Rightarrow>
                  (Inr (js_sort (\<lambda>a b. fi_mtime b - fi_mtime a) fileStats), w2)))"

definition getZipFiles :: "world \<Rightarrow> (error + FileInfo list) \<times> world" where
  "getZipFiles w =
     (case getZipFiles_try w of
        (Inr fileStats, w1) \<Rightarrow> (Inr fileStats, w1)
      | (Inl e, w1) \<Rightarrow> (Inr [], console_error ''Error reading downloads folder:'' (Some e) w1))"

record firmware =
  leftFirmware :: path
  rightFirmware :: path

text \<open>
  \<^verbatim>\<open>extractFirmwareFiles\<close>. \<^verbatim>\<open>!leftFirmware\<close> holds of \<^verbatim>\<open>undefined\<close>, which \<^verbatim>\<open>find\<close> returns when
  nothing matches, and of the empty string.
\<close>

definition falsy :: "string option \<Rightarrow> bool" where
  "falsy x = (case x of None \<Rightarrow> True | Some s \<Rightarrow> s = [])"

definition extractFirmwareFiles_try :: "path \<Rightarrow> path \<Rightarrow> world \<Rightarrow> (error + firmware) \<times> world" where
  "extractFirmwareFiles_try zipFilePath tempDir w =
     (case extract_zip zipFilePath tempDir w of
        (Inl e, w1) \<Rightarrow> (Inl e, w1)
      | (Inr u, w1) \<Rightarrow>
          (case fs_readdir tempDir w1 of
             (Inl e, w2) \<Rightarrow> (Inl e, w2)
           | (Inr files, w2) \<Rightarrow>
               (let leftFound = find (pattern_test LEFT_FIRMWARE_PATTERN) files;
                    rightFound = find (pattern_test RIGHT_FIRMWARE_PATTERN) files
                in if falsy leftFound \<or> falsy rightFound
                   then (Inl (JsError ''Could not find both left and right firmware files in the zip''), w2)
                   else (Inr \<lparr>leftFirmware = path_join [tempDir, the leftFound],
                              rightFirmware = path_join [tempDir, the rightFound]\<rparr>, w2))))"

definition scratch_dir :: "world \<Rightarrow> path" where
  "scratch_dir w = path_join [tmpdir w, ''keyboard-firmware-'' @ show_int (clock w)]"

definition extractFirmwareFiles :: "path \<Rightarrow> world \<Rightarrow> (error + firmware) \<times> world" where
  "extractFirmwareFiles zipFilePath w =
     (let tempDir = scratch_dir w
      in case fs_ensureDir tempDir w of
           (Inl e, w1) \<Rightarrow> (Inl e, w1)
         | (Inr u, w1) \<Rightarrow>
             (case extractFirmwareFiles_try zipFilePath tempDir w1 of
                (Inr found, w2) \<Rightarrow> (Inr found, w2)
              | (Inl e, w2) \<Rightarrow>
                  (case fs_remove tempDir w2 of
                     (Inl e', w3) \<Rightarrow> (Inl e', w3)
                   | (Inr u', w3) \<Rightarrow> (Inl e, w3))))"

text \<open>\<^verbatim>\<open>isVolumeReady\<close>: the three probes of the \<^verbatim>\<open>try\<close> block, and the \<^verbatim>\<open>catch\<close> that answers \<^verbatim>\<open>false\<close>.\<close>

definition isVolumeReady_try :: "world \<Rightarrow> (error + bool) \<times> world" where
  "isVolumeReady_try w =
     (case fs_access NICENANO_VOLUME F_OK w of
        (Inl e, w1) \<Rightarrow> (Inl e, w1)
      | (Inr u, w1) \<Rightarrow>
          (case fs_readdir NICENANO_VOLUME w1 of
             (Inl e, w2) \<Rightarrow> (Inl e, w2)
           | (Inr files, w2) \<Rightarrow>
               (case fs_access NICENANO_VOLUME W_OK w2 of
                  (Inl e, w3) \<Rightarrow> (Inl e, w3)
                | (Inr u', w3) \<Rightarrow> (Inr True, w3))))"

definition isVolumeReady :: "world \<Rightarrow> (error + bool) \<times> world" where
  "isVolumeReady w =
     (case isVolumeReady_try w of
        (Inr b, w1) \<Rightarrow> (Inr b, w1)
      | (Inl e, w1) \<Rightarrow> (Inr False, w1))"

text \<open>\<^verbatim>\<open>waitForBootloaderMode\<close>: the \<^verbatim>\<open>while (true)\<close> loop may run forever, which is the value \<open>None\<close>.\<close>

partial_function (option) wait_loop :: "side \<Rightarrow> world \<Rightarrow> ((error + unit) \<times> world) option" where
  "wait_loop s w =
     (case isVolumeReady w of
        (Inl e, w1) \<Rightarrow> Some (Inl e, w1)
      | (Inr ready, w1) \<Rightarrow>
          if ready
          then Some (Inr (), sleep 1500
                 (console_log (side_upper s @ '' keyboard detected in bootloader mode!'') w1))
          else wait_loop s (sleep 1000 w1))"

definition waitForBootloaderMode :: "side \<Rightarrow> world \<Rightarrow> ((error + unit) \<times> world) option" where
  "waitForBootloaderMode s w =
     wait_loop s
       (console_log (''Please put the '' @ side_name s @
          '' keyboard in bootloader mode by pressing and holding the reset button while plugging in the USB cable.'')
         (console_log (''Waiting for '' @ side_name s @ '' keyboard to be in bootloader mode...'') w))"

text \<open>
  \<^verbatim>\<open>animateProgressBar\<close>: the bar itself is terminal decoration; what remains is one timer per
  step. At every call site \<^verbatim>\<open>steps\<close> divides both 100 and the duration, so the two quotients are
  exact; the loop needs a positive step to end.
\<close>

function animate_loop :: "nat \<Rightarrow> nat \<Rightarrow> nat \<Rightarrow> world \<Rightarrow> world" where
  "animate_loop i stepSize stepTimeMs w =
     (if i \<le> 100 \<and> 0 < stepSize then animate_loop (i + stepSize) stepSize stepTimeMs (sleep stepTimeMs w)
      else w)"
  by pat_completeness auto
termination
  by (relation "measure (\<lambda>(i, stepSize, stepTimeMs, w). 101 - i)") auto

definition animateProgressBar :: "nat \<Rightarrow> string \<Rightarrow> nat \<Rightarrow> world \<Rightarrow> world" where
  "animateProgressBar durationMs status steps w =
     animate_loop 0 (100 div steps) (durationMs div steps) w"

text \<open>\<^verbatim>\<open>copyFirmwareToKeyboard\<close>: the \<^verbatim>\<open>try\<close> block of one attempt, and the retry loop around it.\<close>

definition maxRetries :: nat where
  "maxRetries = 5"

definition retryDelay :: nat where
  "retryDelay = 1000"

definition copy_try :: "path \<Rightarrow> side \<Rightarrow> world \<Rightarrow> (error + unit) \<times> world" where
  "copy_try firmwarePath s w =
     (let w1 = console_log (''Copying '' @ side_name s @ '' firmware to keyboard...'') w;
          w2 = console_log ''Ensuring the keyboard is ready for writing...'' w1;
          w3 = animateProgressBar 500 ''Preparing keyboard for writing...'' 10 w2
      in case fs_access NICENANO_VOLUME W_OK w3 of
           (Inl e, w4) \<Rightarrow> (Inl e, w4)
         | (Inr u, w4) \<Rightarrow>
             (case fs_copy firmwarePath (path_join [NICENANO_VOLUME, path_basename firmwarePath]) w4 of
                (Inl e, w5) \<Rightarrow> (Inl e, w5)
              | (Inr u', w5) \<Rightarrow>
                  (let w6 = console_log (side_upper s @ '' firmware copied successfully!'') w5;
                       w7 = console_log ''Waiting for keyboard to restart...'' w6
                   in (Inr (), animateProgressBar 1000 ''Restarting keyboard...'' 20 w7))))"

definition retry_notice :: "side \<Rightarrow> nat \<Rightarrow> string" where
  "retry_notice s retries =
     ''Error copying '' @ side_name s @ '' firmware (attempt '' @ show_nat retries @ ''/'' @
     show_nat maxRetries @ ''). Retrying in '' @ show_nat (retryDelay div 1000) @ '' seconds...''"

function copy_loop :: "path \<Rightarrow> side \<Rightarrow> nat \<Rightarrow> world \<Rightarrow> (error + unit) \<times> world" where
  "copy_loop firmwarePath s retries w =
     (if retries < maxRetries then
        (case copy_try firmwarePath s w of
           (Inr u, w1) \<Rightarrow> (Inr (), w1)
         | (Inl e, w1) \<Rightarrow>
             if Suc retries \<ge> maxRetries
             then (Inl e, console_error
                     (''Error copying '' @ side_name s @ '' firmware after '' @ show_nat maxRetries @ '' attempts:'')
                     (Some e) w1)
             else copy_loop firmwarePath s (Suc retries)
                    (animateProgressBar retryDelay
                       (''Retry attempt '' @ show_nat (Suc retries) @ ''/'' @ show_nat maxRetries @ ''...'') 20
                       (console_warn (retry_notice s (Suc retries)) w1)))
      else (Inr (), w))"
  by pat_completeness auto
termination
  by (relation "measure (\<lambda>(firmwarePath, s, retries, w). maxRetries - retries)") auto

definition copyFirmwareToKeyboard :: "path \<Rightarrow> side \<Rightarrow> world \<Rightarrow> (error + unit) \<times> world" where
  "copyFirmwareToKeyboard firmwarePath s w = copy_loop firmwarePath s 0 w"

text \<open>
  \<^verbatim>\<open>main\<close>. The \<^verbatim>\<open>try\<close> block ends in one of three ways: it never ends (a wait that goes on for
  ever), it throws, or the process exits, either through \<^verbatim>\<open>process.exit(1)\<close> or by running to its
  end, which is exit status 0. The \<^verbatim>\<open>catch\<close> block prints the error and exits with status 1.
\<close>

definition error_message :: "error \<Rightarrow> string" where
  "error_message e =
     (case e of
        ENOENT p \<Rightarrow> ''ENOENT: no such file or directory, '' @ p
      | ENOTDIR p \<Rightarrow> ''ENOTDIR: not a directory, '' @ p
      | EISDIR p \<Rightarrow> ''EISDIR: illegal operation on a directory, '' @ p
      | EACCES p \<Rightarrow> ''EACCES: permission denied, '' @ p
      | EINVAL p \<Rightarrow> ''EINVAL: invalid argument, '' @ p
      | BadArchive p \<Rightarrow> ''invalid archive, '' @ p
      | PromptClosed \<Rightarrow> ''prompt closed''
      | JsError m \<Rightarrow> m)"

definition choice_of :: "FileInfo \<Rightarrow> string \<times> path" where
  "choice_of file = (path_basename (fi_path file) @ '' ('' @ fi_relativeTime file @ '')'', fi_path file)"

definition main_try :: "world \<Rightarrow> ((error + nat) \<times> world) option" where
  "main_try w =
     (let w1 = console_log ''Keyboard Firmware Loader'' w;
          w2 = console_log ''This script will help you load firmware to your split keyboard.'' w1
      in case getZipFiles w2 of
           (Inl e, w3) \<Rightarrow> Some (Inl e, w3)
         | (Inr zipFiles, w3) \<Rightarrow>
      if length zipFiles = 0
      then Some (Inr 1, console_error ''No zip files found in downloads folder.'' None w3)
      else
        (case prompt_list ''Select the firmware zip file:'' (map choice_of zipFiles) w3 of
           (Inl e, w4) \<Rightarrow> Some (Inl e, w4)
         | (Inr zipFile, w4) \<Rightarrow>
        (case extractFirmwareFiles zipFile (console_log ''Extracting firmware files...'' w4) of
           (Inl e, w5) \<Rightarrow> Some (Inl e, w5)
         | (Inr found, w5) \<Rightarrow>
        (let w6 = console_log ''Firmware files extracted successfully!'' w5;
             w7 = console_log (''Left firmware: '' @ path_basename (leftFirmware found)) w6;
             w8 = console_log (''Right firmware: '' @ path_basename (rightFirmware found)) w7
         in case waitForBootloaderMode Left w8 of
              None \<Rightarrow> None
            | Some (Inl e, w9) \<Rightarrow> Some (Inl e, w9)
            | Some (Inr u, w9) \<Rightarrow>
        (case copyFirmwareToKeyboard (leftFirmware found) Left w9 of
           (Inl e, w10) \<Rightarrow> Some (Inl e, w10)
         | (Inr u, w10) \<Rightarrow>
        (case waitForBootloaderMode Right w10 of
           None \<Rightarrow> None
         | Some (Inl e, w11) \<Rightarrow> Some (Inl e, w11)
         | Some (Inr u, w11) \<Rightarrow>
        (case copyFirmwareToKeyboard (rightFirmware found) Right w11 of
           (Inl e, w12) \<Rightarrow> Some (Inl e, w12)
         | (Inr u, w12) \<Rightarrow>
        (case prompt_confirm ''Do you want to delete the firmware zip file?''
                (console_log ''Firmware loading completed successfully!'' w12) of
           (Inl e, w13) \<Rightarrow> Some (Inl e, w13)
         | (Inr deleteZip, w13) \<Rightarrow>
             if deleteZip then
               (case fs_unlinkSync zipFile w13 of
                  (Inr v, w14) \<Rightarrow>
                    Some (Inr 0, console_warn (''Deleted zip file: '' @ path_basename zipFile) w14)
                | (Inl err, w14) \<Rightarrow>
                    Some (Inr 0, console_error (''Error deleting zip file: '' @ error_message err) None w14))
             else Some (Inr 0, w13)))))))))"

definition main :: "world \<Rightarrow> (nat \<times> world) option" where
  "main w =
     (case main_try w of
        None \<Rightarrow> None
      | Some (Inr status, w1) \<Rightarrow> Some (status, w1)
      | Some (Inl e, w1) \<Rightarrow> Some (1, console_error ''Error:'' (Some e) w1))"

section \<open>Example worlds\<close>

text \<open>
  A small machine for running the script on: a downloads folder with two firmware archives of
  different age, a text file and an archive with an upper-case extension; a scratch area; and
  \<^verbatim>\<open>/Volumes\<close>, which only the system may write to. \<open>mount_volume\<close> is a keyboard half showing up
  in bootloader mode, \<open>unmount_volume\<close> is the half going away.
\<close>

definition plain_dir :: node where
  "plain_dir = Node 0 True True Directory"

definition demo_archive :: body where
  "demo_archive = Archive [(''sofle_left-nice_nano_v2-zmk.uf2'', [1, 2, 3]), (''README.txt'', [7]),
                          (''SOFLE_RIGHT-nice_nano_v2-zmk.UF2'', [])]"

definition demo_disk :: filesystem where
  "demo_disk =
     [(''/'', plain_dir),
      (''/Users'', plain_dir),
      (''/Users/me'', plain_dir),
      (''/Users/me/Downloads'', plain_dir),
      (''/Users/me/Downloads/Personal'', plain_dir),
      (''/Users/me/Downloads/Personal/a.zip'', Node 1000 True True demo_archive),
      (''/Users/me/Downloads/Personal/c.txt'', Node 2000 True True (Regular [])),
      (''/Users/me/Downloads/Personal/b.zip'', Node 3000 True True demo_archive),
      (''/Users/me/Downloads/Personal/FIRMWARE.ZIP'', Node 4000 True True demo_archive),
      (''/tmp'', plain_dir),
      (''/Volumes'', Node 0 True False Directory)]"

definition mount_volume :: "bool \<Rightarrow> filesystem \<Rightarrow> filesystem" where
  "mount_volume writable d = AList.update NICENANO_VOLUME (Node 0 True writable Directory) d"

definition unmount_volume :: "filesystem \<Rightarrow> filesystem" where
  "unmount_volume d = filter (\<lambda>(q, n). \<not> under NICENANO_VOLUME q) d"

definition demo_world :: "filesystem \<Rightarrow> (nat \<Rightarrow> filesystem \<Rightarrow> filesystem) \<Rightarrow> world" where
  "demo_world d out =
     \<lparr>disk = d, outside = out, ticks = 0, clock = 90000000, trace = [], console = [],
      homedir = ''/Users/me'', tmpdir = ''/tmp'', listAnswer = Some 0, confirmAnswer = Some True,
      listingOrder = (\<lambda>names. names)\<rparr>"

definition quiet :: "nat \<Rightarrow> filesystem \<Rightarrow> filesystem" where
  "quiet n d = d"

text \<open>
  \<open>flash_disk\<close> has a keyboard half mounted (writable or read-only), two firmware files ready to
  be copied, the right one of length zero, and an older right firmware file already on the
  volume. More archives, in \<open>odd_archives_disk\<close>: one without a firmware file for the right
  half; one with four firmware files, one of which carries both role prefixes in its name; one
  whose only firmware file carries both role prefixes; one with sub-directories, whose firmware
  files lie at the top; one whose firmware files lie in a sub-directory; and the text file of the
  downloads folder, which is no archive at all.

  Ways in which the world can differ from the plain one: \<open>lock_scratch_area\<close> is an outside
  that takes the write permission from \<^verbatim>\<open>/tmp\<close> at the fourth point of a run; \<open>zip_vanishes\<close> is an
  outside that removes \<^verbatim>\<open>b.zip\<close> from the downloads folder at the third point of a run;
  \<open>stale_scratch_disk\<close> already holds the scratch directory the run is going to use, with a
  firmware file for the right half in it; and \<open>listed_backwards\<close> is a world whose file system
  lists the names of a directory in the reverse order.
\<close>

definition flash_disk :: "bool \<Rightarrow> filesystem" where
  "flash_disk writable =
     mount_volume writable
       (demo_disk @
        [(''/tmp/fw'', plain_dir),
         (''/tmp/fw/sofle_left.uf2'', Node 5 True True (Regular [1, 2, 3])),
         (''/tmp/fw/sofle_right.uf2'', Node 5 True True (Regular [])),
         (''/Volumes/NICENANO/sofle_right.uf2'', Node 1 True True (Regular [9, 9]))])"

definition odd_archives_disk :: filesystem where
  "odd_archives_disk =
     demo_disk @
     [(''/tmp/left-only.zip'', Node 10 True True
         (Archive [(''readme.md'', [1]), (''sofle_left.uf2'', [2])])),
      (''/tmp/both.zip'', Node 11 True True
         (Archive [(''notes.txt'', [3]), (''sofle_left_sofle_right.uf2'', [4]),
                   (''sofle_left.uf2'', [5]), (''sofle_right.uf2'', [6])])),
      (''/tmp/twin.zip'', Node 12 True True
         (Archive [(''notes.txt'', [3]), (''sofle_left_sofle_right.uf2'', [4])])),
      (''/tmp/nested.zip'', Node 13 True True
         (Archive [(''docs/'', []), (''docs/readme.md'', [1]), (''sofle_left.uf2'', [2]),
                   (''build/out/map.txt'', [3]), (''sofle_right.uf2'', [4]),
                   (''__MACOSX/._sofle_right.uf2'', [0])])),
      (''/tmp/deep.zip'', Node 14 True True
         (Archive [(''firmware/sofle_left.uf2'', [2]), (''firmware/sofle_right.uf2'', [4])]))]"

definition lock_scratch_area :: "nat \<Rightarrow> filesystem \<Rightarrow> filesystem" where
  "lock_scratch_area n d =
     (if n = 3 then AList.update ''/tmp'' (Node 0 True False Directory) d else d)"


definition stale_scratch_disk :: filesystem where
  "stale_scratch_disk =
     odd_archives_disk @
     [(''/tmp/keyboard-firmware-90000000'', plain_dir),
      (''/tmp/keyboard-firmware-90000000/sofle_right.uf2'', Node 1 True True (Regular [8]))]"

definition listed_backwards :: "world \<Rightarrow> world" where
  "listed_backwards w = w\<lparr>listingOrder := rev\<rparr>"

text \<open>
  For a whole run of the script: \<open>loader_disk\<close> has the archives in the downloads folder and a
  keyboard half mounted and writable, and \<open>locked_downloads_disk\<close> is the same with a downloads
  folder that cannot be written to, so that the archive cannot be deleted. \<open>pull_plug\<close> is an
  outside that takes the write permission from the mounted half at the eleventh point of a run,
  which is the settle delay after the left half was detected.
\<close>

definition loader_disk :: filesystem where
  "loader_disk = mount_volume True demo_disk"

definition locked_downloads_disk :: filesystem where
  "locked_downloads_disk =
     AList.update ''/Users/me/Downloads/Personal'' (Node 0 True False Directory) loader_disk"

definition pull_plug :: "nat \<Rightarrow> filesystem \<Rightarrow> filesystem" where
  "pull_plug n d = (if n = 10 then mount_volume False d else d)"

section \<open>Views of a run\<close>

text \<open>
  Three properties of a path in a file system, as the probes of \<^verbatim>\<open>isVolumeReady\<close> test them, and
  a world whose outside leaves the file system alone, at every point (\<open>still\<close>) or at every point
  from now to before the \<open>N\<close>-th (\<open>quiet_until N\<close>). \<open>evolve out t n d\<close> is what the outside \<open>out\<close> makes of the
  file system \<open>d\<close> over the \<open>n\<close> points from the \<open>t\<close>-th on.

  For the wait: \<open>announced\<close> is the world after the two opening lines of
  \<^verbatim>\<open>waitForBootloaderMode\<close>; \<open>poll_world k\<close> is the world in which the readiness check runs for the
  \<open>k\<close>-th time (counting from 0) when every check before it answered false, \<open>ready_at k\<close> says
  that this check answers true, and \<open>detected\<close> is what follows a true answer: the message and
  the settle delay. \<open>observations\<close> counts the readiness checks made so far, each of which
  begins with the existence probe of the mount path.

  For the copy: \<open>prepared\<close> is the world in which an attempt makes its writability check,
  \<open>checked\<close> the world after that check and \<open>copied\<close> the world right after the copy call;
  \<open>destination\<close> is the path the attempt copies to;
  \<open>retry_wait s n\<close> is what follows the \<open>n\<close>-th failure when another attempt is due (the warning
  and the backoff), \<open>attempt_world r f s k\<close> is the world in which the \<open>k\<close>-th attempt (counting
  from 0) starts when all attempts before it failed and the counter stood at \<open>r\<close> at first, and
  \<open>attempt f s k\<close> is that attempt of \<^verbatim>\<open>copyFirmwareToKeyboard\<close>. \<open>writability_checks\<close> counts the
  writability checks of the mount path made so far; every attempt makes exactly one.
  \<open>copies_guarded\<close> says of a stretch of calls that every copy in it comes directly after a
  writability check of the mount path that succeeded, and \<open>guarded_run w w'\<close> that the calls made
  from \<open>w\<close> to \<open>w'\<close> are such a stretch.

  For \<^verbatim>\<open>main\<close>: \<open>banner\<close> is the world after the two opening lines, \<open>reported\<close> the world after
  the three lines that report the extraction, \<open>offered\<close> the world after the line that reports
  completion, and \<open>cleanup\<close> is the optional deletion of the archive with its two outcomes.

  Names for what \<^verbatim>\<open>extractFirmwareFiles\<close> sees on its way: the outcome of unpacking the archive
  into the scratch directory, and the listing of the scratch directory read after it.
  \<open>raises_and_cleans_up\<close> says of a result that the last call made was the removal of the
  scratch directory and that the result is an error and no firmware record: when the removal
  went through, the given error, with nothing left at or below the scratch directory; when the
  removal failed, the error of the removal.
\<close>

definition path_exists :: "filesystem \<Rightarrow> path \<Rightarrow> bool" where
  "path_exists d p = (map_of d p \<noteq> None)"

definition listable :: "filesystem \<Rightarrow> path \<Rightarrow> bool" where
  "listable d p = (case readdir_check p d of Inl e \<Rightarrow> False | Inr files \<Rightarrow> True)"

definition writable :: "filesystem \<Rightarrow> path \<Rightarrow> bool" where
  "writable d p = (case access_check p W_OK d of Inl e \<Rightarrow> False | Inr u \<Rightarrow> True)"

definition still :: "world \<Rightarrow> bool" where
  "still w = (\<forall>n. outside w n = (\<lambda>d. d))"

definition quiet_until :: "nat \<Rightarrow> world \<Rightarrow> bool" where
  "quiet_until N w = (\<forall>n. ticks w \<le> n \<and> n < N \<longrightarrow> outside w n = (\<lambda>d. d))"

fun evolve :: "(nat \<Rightarrow> filesystem \<Rightarrow> filesystem) \<Rightarrow> nat \<Rightarrow> nat \<Rightarrow> filesystem \<Rightarrow> filesystem" where
  "evolve out t 0 d = d"
| "evolve out t (Suc n) d = evolve out (Suc t) n (out t d)"

definition announced :: "side \<Rightarrow> world \<Rightarrow> world" where
  "announced s w =
     console_log (''Please put the '' @ side_name s @
          '' keyboard in bootloader mode by pressing and holding the reset button while plugging in the USB cable.'')
       (console_log (''Waiting for '' @ side_name s @ '' keyboard to be in bootloader mode...'') w)"

definition next_poll :: "world \<Rightarrow> world" where
  "next_poll w = sleep 1000 (snd (isVolumeReady w))"

definition poll_world :: "nat \<Rightarrow> world \<Rightarrow> world" where
  "poll_world k w = (next_poll ^^ k) w"

definition ready_at :: "nat \<Rightarrow> world \<Rightarrow> bool" where
  "ready_at k w = (fst (isVolumeReady (poll_world k w)) = Inr True)"

definition detected :: "side \<Rightarrow> world \<Rightarrow> world" where
  "detected s w =
     sleep 1500 (console_log (side_upper s @ '' keyboard detected in bootloader mode!'') w)"

definition observations :: "world \<Rightarrow> nat" where
  "observations w = length (filter (\<lambda>(c, r). c = Access NICENANO_VOLUME F_OK) (trace w))"

definition prepared :: "side \<Rightarrow> world \<Rightarrow> world" where
  "prepared s w =
     animateProgressBar 500 ''Preparing keyboard for writing...'' 10
       (console_log ''Ensuring the keyboard is ready for writing...''
         (console_log (''Copying '' @ side_name s @ '' firmware to keyboard...'') w))"

definition destination :: "path \<Rightarrow> path" where
  "destination firmwarePath = path_join [NICENANO_VOLUME, path_basename firmwarePath]"

definition checked :: "side \<Rightarrow> world \<Rightarrow> world" where
  "checked s w = snd (fs_access NICENANO_VOLUME W_OK (prepared s w))"

definition copied :: "path \<Rightarrow> side \<Rightarrow> world \<Rightarrow> world" where
  "copied firmwarePath s w = snd (fs_copy firmwarePath (destination firmwarePath) (checked s w))"

definition retry_wait :: "side \<Rightarrow> nat \<Rightarrow> world \<Rightarrow> world" where
  "retry_wait s n w =
     animateProgressBar retryDelay
       (''Retry attempt '' @ show_nat n @ ''/'' @ show_nat maxRetries @ ''...'') 20
       (console_warn (retry_notice s n) w)"

primrec attempt_world :: "nat \<Rightarrow> path \<Rightarrow> side \<Rightarrow> nat \<Rightarrow> world \<Rightarrow> world" where
  "attempt_world r firmwarePath s 0 w = w"
| "attempt_world r firmwarePath s (Suc k) w =
     retry_wait s (r + Suc k) (snd (copy_try firmwarePath s (attempt_world r firmwarePath s k w)))"

definition attempt :: "path \<Rightarrow> side \<Rightarrow> nat \<Rightarrow> world \<Rightarrow> (error + unit) \<times> world" where
  "attempt firmwarePath s k w = copy_try firmwarePath s (attempt_world 0 firmwarePath s k w)"

definition writability_checks :: "world \<Rightarrow> nat" where
  "writability_checks w = length (filter (\<lambda>(c, r). c = Access NICENANO_VOLUME W_OK) (trace w))"

definition is_copy :: "call \<times> error option \<Rightarrow> bool" where
  "is_copy e = (case fst e of Copy src dest \<Rightarrow> True | _ \<Rightarrow> False)"

fun guarded_after :: "call \<times> error option \<Rightarrow> (call \<times> error option) list \<Rightarrow> bool" where
  "guarded_after prev [] = True"
| "guarded_after prev (e # es) =
     ((is_copy e \<longrightarrow> prev = (Access NICENANO_VOLUME W_OK, None)) \<and> guarded_after e es)"

definition copies_guarded :: "(call \<times> error option) list \<Rightarrow> bool" where
  "copies_guarded es = (case es of [] \<Rightarrow> True | e # rest \<Rightarrow> \<not> is_copy e \<and> guarded_after e rest)"

definition guarded_run :: "world \<Rightarrow> world \<Rightarrow> bool" where
  "guarded_run w w' = (\<exists>calls. trace w' = trace w @ calls \<and> copies_guarded calls)"

definition banner :: "world \<Rightarrow> world" where
  "banner w =
     console_log ''This script will help you load firmware to your split keyboard.''
       (console_log ''Keyboard Firmware Loader'' w)"

definition reported :: "firmware \<Rightarrow> world \<Rightarrow> world" where
  "reported found w =
     console_log (''Right firmware: '' @ path_basename (rightFirmware found))
       (console_log (''Left firmware: '' @ path_basename (leftFirmware found))
         (console_log ''Firmware files extracted successfully!'' w))"

definition offered :: "world \<Rightarrow> world" where
  "offered w = console_log ''Firmware loading completed successfully!'' w"

definition cleanup :: "path \<Rightarrow> bool \<Rightarrow> world \<Rightarrow> world" where
  "cleanup zipFile deleteZip w =
     (if deleteZip then
        (case fs_unlinkSync zipFile w of
           (Inr v, w14) \<Rightarrow> console_warn (''Deleted zip file: '' @ path_basename zipFile) w14
         | (Inl err, w14) \<Rightarrow>
             console_error (''Error deleting zip file: '' @ error_message err) None w14)
      else w)"

definition unzipped :: "path \<Rightarrow> world \<Rightarrow> (error + unit) \<times> world" where
  "unzipped z w = extract_zip z (scratch_dir w) (snd (fs_ensureDir (scratch_dir w) w))"

definition extracted_listing :: "path \<Rightarrow> world \<Rightarrow> (error + string list) \<times> world" where
  "extracted_listing z w = fs_readdir (scratch_dir w) (snd (unzipped z w))"

definition raises_and_cleans_up :: "(error + firmware) \<times> world \<Rightarrow> path \<Rightarrow> error \<Rightarrow> bool" where
  "raises_and_cleans_up result tempDir e =
     (fst (last (trace (snd result))) = Remove tempDir \<and>
      (case snd (last (trace (snd result))) of
         None \<Rightarrow> fst result = Inl e \<and> \<not> exists_under (disk (snd result)) tempDir
       | Some e' \<Rightarrow> fst result = Inl e'))"

section \<open>The wording of the specification\<close>

text \<open>
  Two names are the same up to case when their canonical forms agree. \<open>spec_firmware_shape\<close>
  is the shape the specification describes for a role's firmware file: the role prefix at the
  start of the name, then any suffix, then the extension \<^verbatim>\<open>.uf2\<close> at the end, all up to case.
\<close>

definition same_ignoring_case :: "code_unit list \<Rightarrow> code_unit list \<Rightarrow> bool" where
  "same_ignoring_case a b = (map canonicalize a = map canonicalize b)"

definition spec_firmware_shape :: "string \<Rightarrow> code_unit list \<Rightarrow> bool" where
  "spec_firmware_shape rolePrefix name =
     (length rolePrefix + 4 \<le> length name \<and>
      same_ignoring_case (take (length rolePrefix) name) (code_units rolePrefix) \<and>
      same_ignoring_case (drop (length name - 4) name) (code_units ''.uf2''))"

section \<open>Listing the archives\<close>


lemma js_insert_insort:
  "js_insert (\<lambda>a b. k b - k a) x ys = insort_key (\<lambda>f. - k f) x ys"
  by (induction ys) auto

lemma js_sort_sort_key:
  "js_sort (\<lambda>a b. k b - k a) xs = sort_key (\<lambda>f. - k f) xs"
  by (induction xs) (simp_all add: js_sort_def js_insert_insort)


lemma mset_js_sort: "mset (js_sort (\<lambda>a b. k b - k a) xs) = mset xs"
  by (simp add: js_sort_sort_key)

lemma js_sort_stable:
  "filter (\<lambda>y. k y = t) (js_sort (\<lambda>a b. k b - k a) xs) = filter (\<lambda>y. (k y :: int) = t) xs"
  using sort_key_stable [of "\<lambda>f. - k f" "- t" xs] by (simp add: js_sort_sort_key)

lemma stat_all_names:
  "stat_all dir files w = (Inr infos, w') \<Longrightarrow> map fi_name infos = files"
proof (induction files arbitrary: w w' infos)
  case Nil
  then show ?case by simp
next
  case (Cons f fs)
  then show ?case
    by (fastforce simp: Let_def split: prod.splits sum.splits)
qed

lemma endsWith_iff: "endsWith s t \<longleftrightarrow> (\<exists>stem. s = stem @ t)"
  unfolding endsWith_def
  by (metis append_eq_conv_conj append_take_drop_id diff_add_inverse2 length_append le_add2)

lemma getZipFiles_try_Inr:
  "getZipFiles_try w = (Inr zs, w') \<Longrightarrow>
   \<exists>files w1 infos. fs_readdir (DOWNLOADS_FOLDER w) w = (Inr files, w1) \<and>
      stat_all (DOWNLOADS_FOLDER w) (filter (\<lambda>file. endsWith file ''.zip'') files) w1 = (Inr infos, w') \<and>
      zs = js_sort (\<lambda>a b. fi_mtime b - fi_mtime a) infos"
  by (auto simp: getZipFiles_try_def Let_def split: prod.splits sum.splits)

lemma getZipFiles_cases:
  "(\<exists>e w1. getZipFiles_try w = (Inl e, w1) \<and> fst (getZipFiles w) = Inr []) \<or>
   (\<exists>zs w1. getZipFiles_try w = (Inr zs, w1) \<and> getZipFiles w = (Inr zs, w1))"
  by (cases "getZipFiles_try w") (auto simp: getZipFiles_def split: sum.splits)

lemma getZipFiles_names:
  assumes "fst (getZipFiles w) = Inr zs" "f \<in> set zs"
  shows "endsWith (fi_name f) ''.zip''"
proof -
  from getZipFiles_cases [of w] assms obtain w1 where "getZipFiles_try w = (Inr zs, w1)"
    by auto
  from getZipFiles_try_Inr [OF this] obtain files w0 infos where
    st: "stat_all (DOWNLOADS_FOLDER w) (filter (\<lambda>file. endsWith file ''.zip'') files) w0 = (Inr infos, w1)"
    and zs: "zs = js_sort (\<lambda>a b. fi_mtime b - fi_mtime a) infos"
    by blast
  have "set zs = set infos"
    using mset_js_sort [of fi_mtime infos] zs by (metis set_mset_mset)
  with assms have "fi_name f \<in> set (map fi_name infos)" by simp
  then show ?thesis
    unfolding stat_all_names [OF st] by simp
qed

text \<open>
  Claim C9. The candidate filter is case-sensitive: whatever the directory holds, every name
  \<^verbatim>\<open>getZipFiles\<close> returns ends with the exact lower-case string \<^verbatim>\<open>.zip\<close>, so an entry named
  \<^verbatim>\<open>FIRMWARE.ZIP\<close> is never among the candidates.
\<close>

theorem zip_filter_is_case_sensitive:
  "fst (getZipFiles w) = Inr zs \<Longrightarrow>
     (\<forall>f \<in> set zs. \<exists>stem. fi_name f = stem @ ''.zip'') \<and> ''FIRMWARE.ZIP'' \<notin> fi_name ` set zs"
proof -
  assume a: "fst (getZipFiles w) = Inr zs"
  have "\<not> endsWith ''FIRMWARE.ZIP'' ''.zip''" by (simp add: endsWith_def)
  with getZipFiles_names [OF a] show ?thesis
    by (auto simp: endsWith_iff [symmetric])
qed









theorem zip_filter_is_case_sensitive_witness:
  "fst (fs_readdir (DOWNLOADS_FOLDER (demo_world demo_disk quiet)) (demo_world demo_disk quiet))
     = Inr [''a.zip'', ''c.txt'', ''b.zip'', ''FIRMWARE.ZIP''] \<and>
   (\<exists>zs. fst (getZipFiles (demo_world demo_disk quiet)) = Inr zs \<and>
      ''FIRMWARE.ZIP'' \<notin> fi_name ` set zs)"
proof -
  let ?w = "demo_world demo_disk quiet"
  have h1: "fst (fs_readdir (DOWNLOADS_FOLDER ?w) ?w) = Inr [''a.zip'', ''c.txt'', ''b.zip'', ''FIRMWARE.ZIP'']"
    by code_simp
  obtain zs where zs: "fst (getZipFiles ?w) = Inr zs"
    using getZipFiles_cases [of ?w] by auto
  from zip_filter_is_case_sensitive [OF zs] h1 zs show ?thesis by blast
qed

section \<open>Recognising the firmware files\<close>

lemma pattern_characters_ascii:
  "\<forall>a \<in> set (LEFT_FIRMWARE_PATTERN @ RIGHT_FIRMWARE_PATTERN).
     \<forall>p. a = One (Chr p) \<or> a = Star (Chr p) \<longrightarrow> (of_char p :: nat) < 128"
  by (simp add: LEFT_FIRMWARE_PATTERN_def RIGHT_FIRMWARE_PATTERN_def literal_def)

lemma match_literal:
  "match_here (literal l @ ps) s \<longleftrightarrow>
     (\<exists>p r. s = p @ r \<and> same_ignoring_case p (code_units l) \<and> match_here ps r)"
proof (induction l arbitrary: s)
  case Nil
  then show ?case by (simp add: literal_def same_ignoring_case_def code_units_def)
next
  case (Cons c l)
  show ?case
  proof (cases s)
    case Nil
    then show ?thesis by (simp add: literal_def same_ignoring_case_def code_units_def)
  next
    case (Cons x xs)
    have "match_here (literal (c # l) @ ps) (x # xs) \<longleftrightarrow>
            canonicalize x = canonicalize (of_char c) \<and> match_here (literal l @ ps) xs"
      by (simp add: literal_def)
    also have "\<dots> \<longleftrightarrow> canonicalize x = canonicalize (of_char c) \<and>
        (\<exists>p r. xs = p @ r \<and> same_ignoring_case p (code_units l) \<and> match_here ps r)"
      using Cons.IH by simp
    also have "\<dots> \<longleftrightarrow>
        (\<exists>p r. x # xs = p @ r \<and> same_ignoring_case p (code_units (c # l)) \<and> match_here ps r)"
      (is "?L \<longleftrightarrow> ?R")
    proof
      assume ?L
      then obtain p r where "xs = p @ r" "same_ignoring_case p (code_units l)" "match_here ps r"
        and "canonicalize x = canonicalize (of_char c)" by blast
      then have "x # xs = (x # p) @ r \<and> same_ignoring_case (x # p) (code_units (c # l)) \<and>
          match_here ps r"
        by (simp add: same_ignoring_case_def code_units_def)
      then show ?R by blast
    next
      assume ?R
      then obtain p r where a: "x # xs = p @ r" "same_ignoring_case p (code_units (c # l))"
        "match_here ps r"
        by blast
      from a(2) obtain y p' where p: "p = y # p'"
        by (cases p) (auto simp: same_ignoring_case_def code_units_def)
      with a show ?L by (auto simp: same_ignoring_case_def code_units_def)
    qed
    finally show ?thesis using Cons by simp
  qed
qed

lemma match_star_any:
  "match_here (Star AnyChar # ps) s \<longleftrightarrow>
     (\<exists>m r. s = m @ r \<and> list_all (\<lambda>c. \<not> line_terminator c) m \<and> match_here ps r)"
proof (induction s)
  case Nil
  then show ?case by simp
next
  case (Cons x xs)
  show ?case (is "?L \<longleftrightarrow> ?R")
  proof
    assume ?L
    then consider "match_here ps (x # xs)"
      | "\<not> line_terminator x" "match_here (Star AnyChar # ps) xs"
      by auto
    then show ?R
    proof cases
      case 1
      then have "x # xs = [] @ (x # xs) \<and> list_all (\<lambda>c. \<not> line_terminator c) [] \<and> match_here ps (x # xs)"
        by simp
      then show ?thesis by blast
    next
      case 2
      with Cons.IH obtain m r where "xs = m @ r" "list_all (\<lambda>c. \<not> line_terminator c) m" "match_here ps r"
        by blast
      with 2 have "x # xs = (x # m) @ r \<and> list_all (\<lambda>c. \<not> line_terminator c) (x # m) \<and> match_here ps r"
        by simp
      then show ?thesis by blast
    qed
  next
    assume ?R
    then obtain m r where a: "x # xs = m @ r" "list_all (\<lambda>c. \<not> line_terminator c) m" "match_here ps r"
      by blast
    show ?L
    proof (cases m)
      case Nil
      with a show ?thesis by simp
    next
      case (Cons y m')
      with a have "xs = m' @ r" "list_all (\<lambda>c. \<not> line_terminator c) m'" "\<not> line_terminator x"
        by auto
      with a(3) Cons.IH have "match_here (Star AnyChar # ps) xs" by blast
      with \<open>\<not> line_terminator x\<close> show ?thesis by simp
    qed
  qed
qed

lemma regex_test_iff:
  "regex_test re s \<longleftrightarrow> (\<exists>before r. s = before @ r \<and> match_here re r)"
proof (induction s)
  case Nil
  then show ?case by simp
next
  case (Cons x xs)
  show ?case (is "?L \<longleftrightarrow> ?R")
  proof
    assume ?L
    then consider "match_here re (x # xs)" | "regex_test re xs" by auto
    then show ?R
    proof cases
      case 1
      then have "x # xs = [] @ (x # xs) \<and> match_here re (x # xs)" by simp
      then show ?thesis by blast
    next
      case 2
      with Cons.IH obtain b r where "xs = b @ r" "match_here re r" by blast
      then have "x # xs = (x # b) @ r \<and> match_here re r" by simp
      then show ?thesis by blast
    qed
  next
    assume ?R
    then obtain b r where a: "x # xs = b @ r" "match_here re r" by blast
    show ?L
    proof (cases b)
      case Nil
      with a have "match_here re (x # xs)" by simp
      then show ?thesis by simp
    next
      case (Cons y b')
      with a have "xs = b' @ r" by simp
      with a(2) Cons.IH have "regex_test re xs" by blast
      then show ?thesis by simp
    qed
  qed
qed

lemma firmware_pattern_iff:
  "regex_test (literal pre @ [Star AnyChar] @ literal ''.uf2'' @ [EndOfInput]) name \<longleftrightarrow>
     (\<exists>before p middle ext. name = before @ p @ middle @ ext \<and>
        same_ignoring_case p (code_units pre) \<and>
        list_all (\<lambda>c. \<not> line_terminator c) middle \<and> same_ignoring_case ext (code_units ''.uf2''))"
proof -
  have e: "match_here (literal ''.uf2'' @ [EndOfInput]) r \<longleftrightarrow>
      same_ignoring_case r (code_units ''.uf2'')" for r
    unfolding match_literal by auto
  have s: "match_here ([Star AnyChar] @ literal ''.uf2'' @ [EndOfInput]) r \<longleftrightarrow>
      (\<exists>middle ext. r = middle @ ext \<and> list_all (\<lambda>c. \<not> line_terminator c) middle \<and>
         same_ignoring_case ext (code_units ''.uf2''))" for r
    using match_star_any [of "literal ''.uf2'' @ [EndOfInput]" r] e by simp
  show ?thesis
    unfolding regex_test_iff match_literal s by blast
qed

text \<open>
  Claim C7, as the code has it. A name, taken as any sequence of UTF-16 code units, is taken
  for a role's firmware exactly when it contains the role prefix (anywhere, not only at the
  start), followed by any run of code units that holds no line terminator (line feed, carriage
  return, \<^verbatim>\<open>U+2028\<close>, \<^verbatim>\<open>U+2029\<close>), followed by \<^verbatim>\<open>.uf2\<close> at the very end, all up to case.
\<close>

theorem firmware_pattern_shape:
  "(regex_test LEFT_FIRMWARE_PATTERN name \<longleftrightarrow>
     (\<exists>before p middle ext. name = before @ p @ middle @ ext \<and>
        same_ignoring_case p (code_units ''sofle_left'') \<and>
        list_all (\<lambda>c. \<not> line_terminator c) middle \<and>
        same_ignoring_case ext (code_units ''.uf2''))) \<and>
   (regex_test RIGHT_FIRMWARE_PATTERN name \<longleftrightarrow>
     (\<exists>before p middle ext. name = before @ p @ middle @ ext \<and>
        same_ignoring_case p (code_units ''sofle_right'') \<and>
        list_all (\<lambda>c. \<not> line_terminator c) middle \<and>
        same_ignoring_case ext (code_units ''.uf2'')))"
  unfolding LEFT_FIRMWARE_PATTERN_def RIGHT_FIRMWARE_PATTERN_def firmware_pattern_iff by simp

theorem firmware_pattern_shape_witness:
  "regex_test LEFT_FIRMWARE_PATTERN (code_units ''old_SOFLE_Left-nice_nano.UF2'') \<and>
   \<not> regex_test RIGHT_FIRMWARE_PATTERN (code_units ''old_SOFLE_Left-nice_nano.UF2'') \<and>
   regex_test LEFT_FIRMWARE_PATTERN (code_units ''sofle_left'' @ [0x00E9, 0xD83D] @ code_units ''.uf2'') \<and>
   \<not> regex_test LEFT_FIRMWARE_PATTERN (code_units ''sofle_left'' @ [0x2028] @ code_units ''.uf2'') \<and>
   \<not> regex_test LEFT_FIRMWARE_PATTERN (code_units ''sofle_left'' @ [0x2029] @ code_units ''.uf2'') \<and>
   \<not> regex_test LEFT_FIRMWARE_PATTERN (code_units ''sofle_left'' @ [0x0D] @ code_units ''.uf2'') \<and>
   \<not> regex_test LEFT_FIRMWARE_PATTERN (code_units ''sofle_left.uf2'' @ [0x0A])"
proof -
  let ?n = "code_units ''old_SOFLE_Left-nice_nano.UF2''"
  have d: "?n = code_units ''old_'' @ code_units ''SOFLE_Left'' @ code_units ''-nice_nano'' @
      code_units ''.UF2''"
    by (simp add: code_units_def)
  have "same_ignoring_case (code_units ''SOFLE_Left'') (code_units ''sofle_left'')"
    "same_ignoring_case (code_units ''.UF2'') (code_units ''.uf2'')"
    "list_all (\<lambda>c. \<not> line_terminator c) (code_units ''-nice_nano'')"
    by (simp_all add: same_ignoring_case_def code_units_def canonicalize_def line_terminator_def)
  with d have "\<exists>before p middle ext. ?n = before @ p @ middle @ ext \<and>
        same_ignoring_case p (code_units ''sofle_left'') \<and>
        list_all (\<lambda>c. \<not> line_terminator c) middle \<and> same_ignoring_case ext (code_units ''.uf2'')"
    by blast
  then have l: "regex_test LEFT_FIRMWARE_PATTERN ?n"
    using firmware_pattern_shape [of ?n] by blast
  have r: "\<not> regex_test RIGHT_FIRMWARE_PATTERN ?n"
    by (simp add: RIGHT_FIRMWARE_PATTERN_def literal_def code_units_def canonicalize_def
        line_terminator_def)
  have w: "regex_test LEFT_FIRMWARE_PATTERN (code_units ''sofle_left'' @ [0x00E9, 0xD83D] @ code_units ''.uf2'')"
    by (simp add: LEFT_FIRMWARE_PATTERN_def literal_def code_units_def canonicalize_def
        line_terminator_def)
  have t: "\<not> regex_test LEFT_FIRMWARE_PATTERN (code_units ''sofle_left'' @ [0x2028] @ code_units ''.uf2'')"
    "\<not> regex_test LEFT_FIRMWARE_PATTERN (code_units ''sofle_left'' @ [0x2029] @ code_units ''.uf2'')"
    "\<not> regex_test LEFT_FIRMWARE_PATTERN (code_units ''sofle_left'' @ [0x0D] @ code_units ''.uf2'')"
    "\<not> regex_test LEFT_FIRMWARE_PATTERN (code_units ''sofle_left.uf2'' @ [0x0A])"
    by (simp_all add: LEFT_FIRMWARE_PATTERN_def literal_def code_units_def canonicalize_def
        line_terminator_def)
  from l r w t show ?thesis by simp
qed

text \<open>
  The claim as stated asks for the prefix at the start of the name. The pattern has no start
  anchor: \<^verbatim>\<open>old_sofle_left.uf2\<close> is taken for the left firmware. And the dot of the pattern stops
  at a line terminator, so not every suffix is accepted: a name with the right prefix, a line
  separator and the extension is not taken for the right firmware.
\<close>

theorem firmware_prefix_at_start_counterexample:
  "regex_test LEFT_FIRMWARE_PATTERN (code_units ''old_sofle_left.uf2'') \<and>
   \<not> spec_firmware_shape ''sofle_left'' (code_units ''old_sofle_left.uf2'') \<and>
   spec_firmware_shape ''sofle_right'' (code_units ''sofle_right'' @ [0x2028] @ code_units ''.uf2'') \<and>
   \<not> regex_test RIGHT_FIRMWARE_PATTERN (code_units ''sofle_right'' @ [0x2028] @ code_units ''.uf2'')"
  by (simp add: LEFT_FIRMWARE_PATTERN_def RIGHT_FIRMWARE_PATTERN_def literal_def code_units_def
      canonicalize_def line_terminator_def spec_firmware_shape_def same_ignoring_case_def)

section \<open>Unpacking the archive\<close>

lemma failure_None_iff: "failure r = None \<longleftrightarrow> (\<exists>x. r = Inr x)"
  by (cases r) (simp_all add: failure_def)

lemma mutate_trace:
  "mutate c f w = (r, w') \<Longrightarrow> trace w' = trace (await w) @ [(c, failure r)]"
  by (auto simp: mutate_def Let_def record_call_def failure_def split: sum.splits)

lemma observe_trace:
  "observe c f w = (r, w') \<Longrightarrow> trace w' = trace (await w) @ [(c, failure r)]"
  by (auto simp: observe_def Let_def record_call_def)

lemma mutate_disk:
  "mutate c f w = (Inr u, w') \<Longrightarrow> f (disk (await w)) = Inr (disk w')"
  by (auto simp: mutate_def Let_def record_call_def split: sum.splits)

lemma remove_tree_gone: "remove_tree p d = Inr d' \<Longrightarrow> \<not> exists_under d' p"
  by (auto simp: remove_tree_def exists_under_def list_ex_iff split: if_splits)

lemma fs_remove_effect:
  assumes "fs_remove p w = (r, w')"
  shows "last (trace w') = (Remove p, failure r)"
    and "failure r = None \<Longrightarrow> \<not> exists_under (disk w') p"
proof -
  show "last (trace w') = (Remove p, failure r)"
    using mutate_trace [of "Remove p" "remove_tree p" w r w'] assms by (simp add: fs_remove_def)
  assume "failure r = None"
  then obtain u where "r = Inr u" by (auto simp: failure_None_iff)
  with assms have "remove_tree p (disk (await w)) = Inr (disk w')"
    using mutate_disk [of "Remove p" "remove_tree p" w u w'] by (simp add: fs_remove_def)
  then show "\<not> exists_under (disk w') p" by (rule remove_tree_gone)
qed

lemma pattern_test_nonempty:
  "pattern_test LEFT_FIRMWARE_PATTERN [] = False" "pattern_test RIGHT_FIRMWARE_PATTERN [] = False"
  by (simp_all add: pattern_test_def code_units_def LEFT_FIRMWARE_PATTERN_def
      RIGHT_FIRMWARE_PATTERN_def literal_def)

lemma falsy_find_gen:
  assumes "\<not> P []"
  shows "falsy (find P files) \<longleftrightarrow> find P files = None"
proof (cases "find P files")
  case None
  then show ?thesis by (simp add: falsy_def)
next
  case (Some s)
  then have "P s" by (auto simp: find_Some_iff)
  with assms have "s \<noteq> []" by auto
  with Some show ?thesis by (simp add: falsy_def)
qed

lemma falsy_find:
  "falsy (find (pattern_test LEFT_FIRMWARE_PATTERN) files) \<longleftrightarrow>
     find (pattern_test LEFT_FIRMWARE_PATTERN) files = None"
  "falsy (find (pattern_test RIGHT_FIRMWARE_PATTERN) files) \<longleftrightarrow>
     find (pattern_test RIGHT_FIRMWARE_PATTERN) files = None"
  using pattern_test_nonempty by (simp_all add: falsy_find_gen)

lemma extract_try_cases:
  "extractFirmwareFiles_try z t w =
     (case extract_zip z t w of
        (Inl e, w1) \<Rightarrow> (Inl e, w1)
      | (Inr u, w1) \<Rightarrow>
          (case fs_readdir t w1 of
             (Inl e, w2) \<Rightarrow> (Inl e, w2)
           | (Inr files, w2) \<Rightarrow>
               (case (find (pattern_test LEFT_FIRMWARE_PATTERN) files,
                      find (pattern_test RIGHT_FIRMWARE_PATTERN) files) of
                  (Some l, Some r) \<Rightarrow>
                    (Inr \<lparr>leftFirmware = path_join [t, l], rightFirmware = path_join [t, r]\<rparr>, w2)
                | _ \<Rightarrow> (Inl (JsError ''Could not find both left and right firmware files in the zip''), w2))))"
  by (auto simp: extractFirmwareFiles_try_def Let_def falsy_find split: prod.splits sum.splits option.splits)

lemma extract_after_ensureDir:
  assumes "fs_ensureDir (scratch_dir w) w = (Inr u, w1)"
  shows "extractFirmwareFiles z w =
     (case extractFirmwareFiles_try z (scratch_dir w) w1 of
        (Inr found, w2) \<Rightarrow> (Inr found, w2)
      | (Inl e, w2) \<Rightarrow>
          (case fs_remove (scratch_dir w) w2 of
             (Inl e', w3) \<Rightarrow> (Inl e', w3)
           | (Inr u', w3) \<Rightarrow> (Inl e, w3)))"
  using assms by (simp add: extractFirmwareFiles_def Let_def)

lemma try_failure_cleans_up:
  assumes en: "fs_ensureDir (scratch_dir w) w = (Inr u, w1)"
    and tr: "extractFirmwareFiles_try z (scratch_dir w) w1 = (Inl e, w2)"
  shows "raises_and_cleans_up (extractFirmwareFiles z w) (scratch_dir w) e"
proof -
  obtain r w3 where rm: "fs_remove (scratch_dir w) w2 = (r, w3)" by (cases "fs_remove (scratch_dir w) w2")
  have res: "extractFirmwareFiles z w = (case r of Inl e' \<Rightarrow> Inl e' | Inr u' \<Rightarrow> Inl e, w3)"
    using extract_after_ensureDir [OF en, of z] tr rm by (simp split: sum.splits)
  have l: "last (trace w3) = (Remove (scratch_dir w), failure r)"
    by (rule fs_remove_effect(1) [OF rm])
  show ?thesis
  proof (cases r)
    case (Inl e')
    then show ?thesis
      unfolding raises_and_cleans_up_def res using l by (simp add: failure_def)
  next
    case (Inr u')
    then have "failure r = None" by (simp add: failure_def)
    from fs_remove_effect(2) [OF rm this] Inr show ?thesis
      unfolding raises_and_cleans_up_def res using l by (simp add: failure_def)
  qed
qed

lemma find_None_filter: "find P xs = None \<longleftrightarrow> filter P xs = []"
  by (auto simp: find_None_iff filter_empty_conv)

lemma extract_Inr_cases:
  assumes "fst (extractFirmwareFiles z w) = Inr found"
  shows "\<exists>u w1 w2. fs_ensureDir (scratch_dir w) w = (Inr u, w1) \<and>
           extractFirmwareFiles_try z (scratch_dir w) w1 = (Inr found, w2) \<and>
           extractFirmwareFiles z w = (Inr found, w2)"
  using assms
  by (auto simp: extractFirmwareFiles_def Let_def split: prod.splits sum.splits)

lemma try_Inr_cases:
  assumes "extractFirmwareFiles_try z t w1 = (Inr found, w2)"
  shows "\<exists>u files l r. fst (extract_zip z t w1) = Inr u \<and>
           fs_readdir t (snd (extract_zip z t w1)) = (Inr files, w2) \<and>
           find (pattern_test LEFT_FIRMWARE_PATTERN) files = Some l \<and>
           find (pattern_test RIGHT_FIRMWARE_PATTERN) files = Some r \<and>
           found = \<lparr>leftFirmware = path_join [t, l], rightFirmware = path_join [t, r]\<rparr>"
  using assms unfolding extract_try_cases
  by (auto split: prod.splits sum.splits option.splits)

lemma try_unzip_fails:
  assumes "fst (extract_zip z t w1) = Inl e"
  shows "extractFirmwareFiles_try z t w1 = (Inl e, snd (extract_zip z t w1))"
  using assms unfolding extract_try_cases by (auto split: prod.splits sum.splits)

lemma try_listing_fails:
  assumes "fst (extract_zip z t w1) = Inr u" "fst (fs_readdir t (snd (extract_zip z t w1))) = Inl e"
  shows "extractFirmwareFiles_try z t w1 = (Inl e, snd (fs_readdir t (snd (extract_zip z t w1))))"
  using assms unfolding extract_try_cases by (auto split: prod.splits sum.splits)

lemma try_no_match:
  assumes "fst (extract_zip z t w1) = Inr u" "fst (fs_readdir t (snd (extract_zip z t w1))) = Inr files"
    and "find (pattern_test LEFT_FIRMWARE_PATTERN) files = None \<or>
         find (pattern_test RIGHT_FIRMWARE_PATTERN) files = None"
  shows "extractFirmwareFiles_try z t w1 =
           (Inl (JsError ''Could not find both left and right firmware files in the zip''),
            snd (fs_readdir t (snd (extract_zip z t w1))))"
  using assms unfolding extract_try_cases by (auto split: prod.splits sum.splits option.splits)

lemma try_both_match:
  assumes "fst (extract_zip z t w1) = Inr u" "fst (fs_readdir t (snd (extract_zip z t w1))) = Inr files"
    and "find (pattern_test LEFT_FIRMWARE_PATTERN) files = Some l"
        "find (pattern_test RIGHT_FIRMWARE_PATTERN) files = Some r"
  shows "extractFirmwareFiles_try z t w1 =
           (Inr \<lparr>leftFirmware = path_join [t, l], rightFirmware = path_join [t, r]\<rparr>,
            snd (fs_readdir t (snd (extract_zip z t w1))))"
  using assms unfolding extract_try_cases by (auto split: prod.splits sum.splits option.splits)

text \<open>
  Claim C6, as the code has it. Once the scratch directory is made: if unpacking the archive
  fails, or the scratch directory cannot be listed, or its listing has no name matching the left
  pattern or none matching the right pattern, \<^verbatim>\<open>extractFirmwareFiles\<close> ends in an error and returns
  no firmware record, and its last act is the call that removes the scratch directory. When that
  removal goes through, the error is the one that made the extraction fail (for a missing
  firmware file, the message \<^verbatim>\<open>Could not find both left and right firmware files in the zip\<close>) and
  nothing is left at or below the scratch directory; when the removal itself fails, its error is
  the one raised. Both paths are returned exactly when both patterns match a listed name.
\<close>

theorem extract_failure_cleans_up:
  assumes created: "fst (fs_ensureDir (scratch_dir w) w) = Inr ()"
  shows
   "(\<forall>e. fst (unzipped z w) = Inl e \<longrightarrow>
        raises_and_cleans_up (extractFirmwareFiles z w) (scratch_dir w) e) \<and>
    (\<forall>e. fst (unzipped z w) = Inr () \<and> fst (extracted_listing z w) = Inl e \<longrightarrow>
        raises_and_cleans_up (extractFirmwareFiles z w) (scratch_dir w) e) \<and>
    (\<forall>files. fst (unzipped z w) = Inr () \<and> fst (extracted_listing z w) = Inr files \<and>
        (filter (pattern_test LEFT_FIRMWARE_PATTERN) files = [] \<or>
         filter (pattern_test RIGHT_FIRMWARE_PATTERN) files = [])
      \<longrightarrow> raises_and_cleans_up (extractFirmwareFiles z w) (scratch_dir w)
            (JsError ''Could not find both left and right firmware files in the zip'')) \<and>
    (\<forall>found. fst (extractFirmwareFiles z w) = Inr found \<longrightarrow>
        fst (unzipped z w) = Inr () \<and>
        (\<exists>files l r. fst (extracted_listing z w) = Inr files \<and>
           find (pattern_test LEFT_FIRMWARE_PATTERN) files = Some l \<and>
           find (pattern_test RIGHT_FIRMWARE_PATTERN) files = Some r \<and>
           found = \<lparr>leftFirmware = path_join [scratch_dir w, l],
                    rightFirmware = path_join [scratch_dir w, r]\<rparr>)) \<and>
    (\<forall>files l r. fst (unzipped z w) = Inr () \<and> fst (extracted_listing z w) = Inr files \<and>
        find (pattern_test LEFT_FIRMWARE_PATTERN) files = Some l \<and>
        find (pattern_test RIGHT_FIRMWARE_PATTERN) files = Some r
      \<longrightarrow> fst (extractFirmwareFiles z w) =
            Inr \<lparr>leftFirmware = path_join [scratch_dir w, l],
                 rightFirmware = path_join [scratch_dir w, r]\<rparr>)"
proof -
  obtain w1 where en: "fs_ensureDir (scratch_dir w) w = (Inr (), w1)"
    using created by (metis prod.collapse)
  have w1: "snd (fs_ensureDir (scratch_dir w) w) = w1" using en by simp
  have A: "raises_and_cleans_up (extractFirmwareFiles z w) (scratch_dir w) e"
    if "fst (unzipped z w) = Inl e" for e
    using that try_unzip_fails [of z "scratch_dir w" w1 e] try_failure_cleans_up [OF en]
    by (simp add: unzipped_def w1)
  have L: "raises_and_cleans_up (extractFirmwareFiles z w) (scratch_dir w) e"
    if "fst (unzipped z w) = Inr ()" "fst (extracted_listing z w) = Inl e" for e
    using that try_listing_fails [of z "scratch_dir w" w1 "()" e] try_failure_cleans_up [OF en]
    by (simp add: unzipped_def extracted_listing_def w1)
  have B: "raises_and_cleans_up (extractFirmwareFiles z w) (scratch_dir w)
            (JsError ''Could not find both left and right firmware files in the zip'')"
    if "fst (unzipped z w) = Inr ()" "fst (extracted_listing z w) = Inr files"
       "filter (pattern_test LEFT_FIRMWARE_PATTERN) files = [] \<or>
        filter (pattern_test RIGHT_FIRMWARE_PATTERN) files = []" for files
    using that try_no_match [of z "scratch_dir w" w1 "()" files] try_failure_cleans_up [OF en]
    by (simp add: unzipped_def extracted_listing_def w1 find_None_filter)
  have C: "fst (unzipped z w) = Inr () \<and>
        (\<exists>files l r. fst (extracted_listing z w) = Inr files \<and>
           find (pattern_test LEFT_FIRMWARE_PATTERN) files = Some l \<and>
           find (pattern_test RIGHT_FIRMWARE_PATTERN) files = Some r \<and>
           found = \<lparr>leftFirmware = path_join [scratch_dir w, l],
                    rightFirmware = path_join [scratch_dir w, r]\<rparr>)"
    if "fst (extractFirmwareFiles z w) = Inr found" for found
  proof -
    from extract_Inr_cases [OF that] en obtain w2 where
      "extractFirmwareFiles_try z (scratch_dir w) w1 = (Inr found, w2)" by auto
    from try_Inr_cases [OF this] show ?thesis
      by (auto simp: unzipped_def extracted_listing_def w1)
  qed
  have D: "fst (extractFirmwareFiles z w) =
            Inr \<lparr>leftFirmware = path_join [scratch_dir w, l],
                 rightFirmware = path_join [scratch_dir w, r]\<rparr>"
    if "fst (unzipped z w) = Inr ()" "fst (extracted_listing z w) = Inr files"
       "find (pattern_test LEFT_FIRMWARE_PATTERN) files = Some l"
       "find (pattern_test RIGHT_FIRMWARE_PATTERN) files = Some r" for files l r
    using that try_both_match [of z "scratch_dir w" w1 "()" files l r]
      extract_after_ensureDir [OF en, of z]
    by (simp add: unzipped_def extracted_listing_def w1)
  from A L B C D show ?thesis by blast
qed

text \<open>
  Four archives in a world where nothing interferes: one without a firmware file for the right
  half, a file that is no archive, one whose firmware files lie in a sub-directory and so are not
  among the names listed, and one with sub-directories and both firmware files at the top.
\<close>

theorem extract_failure_cleans_up_witness:
  "fst (fs_ensureDir (scratch_dir (demo_world odd_archives_disk quiet)) (demo_world odd_archives_disk quiet)) = Inr () \<and>
   fst (unzipped ''/tmp/left-only.zip'' (demo_world odd_archives_disk quiet)) = Inr () \<and>
   fst (extracted_listing ''/tmp/left-only.zip'' (demo_world odd_archives_disk quiet))
     = Inr [''readme.md'', ''sofle_left.uf2''] \<and>
   filter (pattern_test RIGHT_FIRMWARE_PATTERN) [''readme.md'', ''sofle_left.uf2''] = [] \<and>
   fst (extractFirmwareFiles ''/tmp/left-only.zip'' (demo_world odd_archives_disk quiet))
     = Inl (JsError ''Could not find both left and right firmware files in the zip'') \<and>
   \<not> exists_under (disk (snd (extractFirmwareFiles ''/tmp/left-only.zip'' (demo_world odd_archives_disk quiet))))
       (scratch_dir (demo_world odd_archives_disk quiet)) \<and>
   fst (unzipped ''/Users/me/Downloads/Personal/c.txt'' (demo_world odd_archives_disk quiet))
     = Inl (BadArchive ''/Users/me/Downloads/Personal/c.txt'') \<and>
   fst (extractFirmwareFiles ''/Users/me/Downloads/Personal/c.txt'' (demo_world odd_archives_disk quiet))
     = Inl (BadArchive ''/Users/me/Downloads/Personal/c.txt'') \<and>
   \<not> exists_under (disk (snd (extractFirmwareFiles ''/Users/me/Downloads/Personal/c.txt''
                                  (demo_world odd_archives_disk quiet))))
       (scratch_dir (demo_world odd_archives_disk quiet)) \<and>
   fst (extracted_listing ''/tmp/deep.zip'' (demo_world odd_archives_disk quiet)) = Inr [''firmware''] \<and>
   fst (extractFirmwareFiles ''/tmp/deep.zip'' (demo_world odd_archives_disk quiet))
     = Inl (JsError ''Could not find both left and right firmware files in the zip'') \<and>
   \<not> exists_under (disk (snd (extractFirmwareFiles ''/tmp/deep.zip'' (demo_world odd_archives_disk quiet))))
       (scratch_dir (demo_world odd_archives_disk quiet)) \<and>
   fst (extracted_listing ''/tmp/nested.zip'' (demo_world odd_archives_disk quiet))
     = Inr [''docs'', ''sofle_left.uf2'', ''build'', ''sofle_right.uf2''] \<and>
   fst (extractFirmwareFiles ''/tmp/nested.zip'' (demo_world odd_archives_disk quiet))
     = Inr \<lparr>leftFirmware = ''/tmp/keyboard-firmware-90000000/sofle_left.uf2'',
            rightFirmware = ''/tmp/keyboard-firmware-90000000/sofle_right.uf2''\<rparr>"
proof -
  let ?w = "demo_world odd_archives_disk quiet"
  let ?z = "''/tmp/left-only.zip''"
  let ?c = "''/Users/me/Downloads/Personal/c.txt''"
  let ?d = "''/tmp/deep.zip''"
  let ?n = "''/tmp/nested.zip''"
  let ?msg = "JsError ''Could not find both left and right firmware files in the zip''"
  have h0: "fst (fs_ensureDir (scratch_dir ?w) ?w) = Inr ()" by code_simp
  have h1: "fst (unzipped ?z ?w) = Inr ()" by code_simp
  have h2: "fst (extracted_listing ?z ?w) = Inr [''readme.md'', ''sofle_left.uf2'']" by code_simp
  have h3: "filter (pattern_test RIGHT_FIRMWARE_PATTERN) [''readme.md'', ''sofle_left.uf2''] = []"
    by code_simp
  have h4: "snd (last (trace (snd (extractFirmwareFiles ?z ?w)))) = None" by code_simp
  have h5: "fst (unzipped ?c ?w) = Inl (BadArchive ?c)" by code_simp
  have h6: "snd (last (trace (snd (extractFirmwareFiles ?c ?w)))) = None" by code_simp
  have h7: "fst (unzipped ?d ?w) = Inr ()" by code_simp
  have h8: "fst (extracted_listing ?d ?w) = Inr [''firmware'']" by code_simp
  have h9: "filter (pattern_test LEFT_FIRMWARE_PATTERN) [''firmware''] = []" by code_simp
  have h10: "snd (last (trace (snd (extractFirmwareFiles ?d ?w)))) = None" by code_simp
  have h11: "fst (unzipped ?n ?w) = Inr ()" by code_simp
  have h12: "fst (extracted_listing ?n ?w) = Inr [''docs'', ''sofle_left.uf2'', ''build'', ''sofle_right.uf2'']"
    by code_simp
  have h13: "find (pattern_test LEFT_FIRMWARE_PATTERN) [''docs'', ''sofle_left.uf2'', ''build'', ''sofle_right.uf2'']
      = Some ''sofle_left.uf2''"
    "find (pattern_test RIGHT_FIRMWARE_PATTERN) [''docs'', ''sofle_left.uf2'', ''build'', ''sofle_right.uf2'']
      = Some ''sofle_right.uf2''"
    by code_simp+
  have h14: "path_join [scratch_dir ?w, ''sofle_left.uf2''] = ''/tmp/keyboard-firmware-90000000/sofle_left.uf2''"
    "path_join [scratch_dir ?w, ''sofle_right.uf2''] = ''/tmp/keyboard-firmware-90000000/sofle_right.uf2''"
    by code_simp+
  from extract_failure_cleans_up [OF h0, of ?z] h1 h2 h3
  have "raises_and_cleans_up (extractFirmwareFiles ?z ?w) (scratch_dir ?w) ?msg" by blast
  with h4 have a: "fst (extractFirmwareFiles ?z ?w) = Inl ?msg \<and>
      \<not> exists_under (disk (snd (extractFirmwareFiles ?z ?w))) (scratch_dir ?w)"
    by (simp add: raises_and_cleans_up_def)
  from extract_failure_cleans_up [OF h0, of ?c] h5
  have "raises_and_cleans_up (extractFirmwareFiles ?c ?w) (scratch_dir ?w) (BadArchive ?c)" by blast
  with h6 have b: "fst (extractFirmwareFiles ?c ?w) = Inl (BadArchive ?c) \<and>
      \<not> exists_under (disk (snd (extractFirmwareFiles ?c ?w))) (scratch_dir ?w)"
    by (simp add: raises_and_cleans_up_def)
  from extract_failure_cleans_up [OF h0, of ?d] h7 h8 h9
  have "raises_and_cleans_up (extractFirmwareFiles ?d ?w) (scratch_dir ?w) ?msg" by blast
  with h10 have c: "fst (extractFirmwareFiles ?d ?w) = Inl ?msg \<and>
      \<not> exists_under (disk (snd (extractFirmwareFiles ?d ?w))) (scratch_dir ?w)"
    by (simp add: raises_and_cleans_up_def)
  from extract_failure_cleans_up [OF h0, of ?n] h11 h12 h13
  have "fst (extractFirmwareFiles ?n ?w) =
      Inr \<lparr>leftFirmware = path_join [scratch_dir ?w, ''sofle_left.uf2''],
           rightFirmware = path_join [scratch_dir ?w, ''sofle_right.uf2'']\<rparr>" by blast
  then have d: "fst (extractFirmwareFiles ?n ?w) =
      Inr \<lparr>leftFirmware = ''/tmp/keyboard-firmware-90000000/sofle_left.uf2'',
           rightFirmware = ''/tmp/keyboard-firmware-90000000/sofle_right.uf2''\<rparr>"
    unfolding h14 .
  from h0 h1 h2 h3 h5 h8 h12 a b c d show ?thesis by blast
qed

text \<open>
  The claim as stated promises the descriptive error and the removal of the scratch directory
  whenever a firmware file is missing. Both rest on the removal going through. When \<^verbatim>\<open>/tmp\<close> loses
  its write permission while the script runs, the archive without a right firmware file ends in
  the error of the removal, and the scratch directory stays. The claim also speaks of the files
  of the archive where the code looks at the names in the scratch directory: with a firmware
  file for the right half already lying there, the same archive, which has none, gives a success
  and both paths.
\<close>

theorem extract_cleanup_can_fail_counterexample:
  "fst (fs_ensureDir (scratch_dir (demo_world odd_archives_disk lock_scratch_area))
         (demo_world odd_archives_disk lock_scratch_area)) = Inr () \<and>
   fst (unzipped ''/tmp/left-only.zip'' (demo_world odd_archives_disk lock_scratch_area)) = Inr () \<and>
   fst (extracted_listing ''/tmp/left-only.zip'' (demo_world odd_archives_disk lock_scratch_area))
     = Inr [''readme.md'', ''sofle_left.uf2''] \<and>
   \<not> pattern_test RIGHT_FIRMWARE_PATTERN ''readme.md'' \<and>
   \<not> pattern_test RIGHT_FIRMWARE_PATTERN ''sofle_left.uf2'' \<and>
   fst (extractFirmwareFiles ''/tmp/left-only.zip'' (demo_world odd_archives_disk lock_scratch_area))
     = Inl (EACCES ''/tmp/keyboard-firmware-90000000'') \<and>
   scratch_dir (demo_world odd_archives_disk lock_scratch_area) = ''/tmp/keyboard-firmware-90000000'' \<and>
   exists_under
     (disk (snd (extractFirmwareFiles ''/tmp/left-only.zip'' (demo_world odd_archives_disk lock_scratch_area))))
     ''/tmp/keyboard-firmware-90000000'' \<and>
   map_of stale_scratch_disk ''/tmp/left-only.zip''
     = Some (Node 10 True True (Archive [(''readme.md'', [1]), (''sofle_left.uf2'', [2])])) \<and>
   fst (extractFirmwareFiles ''/tmp/left-only.zip'' (demo_world stale_scratch_disk quiet))
     = Inr \<lparr>leftFirmware = ''/tmp/keyboard-firmware-90000000/sofle_left.uf2'',
            rightFirmware = ''/tmp/keyboard-firmware-90000000/sofle_right.uf2''\<rparr>"
  by code_simp

text \<open>
  Claim C10. Each role's file is the first name of the directory listing that matches the
  role's pattern, whatever the order in which the file system lists the names. When one name is
  the first match of both patterns it is chosen for both roles, and the two returned paths are
  equal. The archive \<^verbatim>\<open>/tmp/twin.zip\<close> is a case of it: its only firmware file matches both patterns,
  and the two paths are equal whether the names are listed forwards or backwards.
\<close>

theorem extract_picks_first_match:
  "(\<forall>found. fst (extractFirmwareFiles z w) = Inr found \<longrightarrow>
      (\<exists>files i j. fst (extracted_listing z w) = Inr files \<and>
         i < length files \<and> pattern_test LEFT_FIRMWARE_PATTERN (files ! i) \<and>
         (\<forall>k<i. \<not> pattern_test LEFT_FIRMWARE_PATTERN (files ! k)) \<and>
         leftFirmware found = path_join [scratch_dir w, files ! i] \<and>
         j < length files \<and> pattern_test RIGHT_FIRMWARE_PATTERN (files ! j) \<and>
         (\<forall>k<j. \<not> pattern_test RIGHT_FIRMWARE_PATTERN (files ! k)) \<and>
         rightFirmware found = path_join [scratch_dir w, files ! j] \<and>
         (i = j \<longrightarrow> leftFirmware found = rightFirmware found))) \<and>
   (\<forall>files i. fst (fs_ensureDir (scratch_dir w) w) = Inr () \<and> fst (unzipped z w) = Inr () \<and>
       fst (extracted_listing z w) = Inr files \<and> i < length files \<and>
       pattern_test LEFT_FIRMWARE_PATTERN (files ! i) \<and> pattern_test RIGHT_FIRMWARE_PATTERN (files ! i) \<and>
       (\<forall>k<i. \<not> pattern_test LEFT_FIRMWARE_PATTERN (files ! k) \<and>
              \<not> pattern_test RIGHT_FIRMWARE_PATTERN (files ! k))
     \<longrightarrow> fst (extractFirmwareFiles z w) =
           Inr \<lparr>leftFirmware = path_join [scratch_dir w, files ! i],
                rightFirmware = path_join [scratch_dir w, files ! i]\<rparr>) \<and>
   (\<exists>name. pattern_test LEFT_FIRMWARE_PATTERN name \<and> pattern_test RIGHT_FIRMWARE_PATTERN name \<and>
      fst (extractFirmwareFiles ''/tmp/twin.zip'' (demo_world odd_archives_disk quiet)) =
        Inr \<lparr>leftFirmware = path_join [scratch_dir (demo_world odd_archives_disk quiet), name],
             rightFirmware = path_join [scratch_dir (demo_world odd_archives_disk quiet), name]\<rparr> \<and>
      fst (extractFirmwareFiles ''/tmp/twin.zip'' (listed_backwards (demo_world odd_archives_disk quiet))) =
        Inr \<lparr>leftFirmware = path_join [scratch_dir (demo_world odd_archives_disk quiet), name],
             rightFirmware = path_join [scratch_dir (demo_world odd_archives_disk quiet), name]\<rparr>)"
proof (intro conjI allI impI)
  fix found assume a: "fst (extractFirmwareFiles z w) = Inr found"
  from extract_Inr_cases [OF a] obtain u w1 w2 where
    en: "fs_ensureDir (scratch_dir w) w = (Inr u, w1)"
    and tr: "extractFirmwareFiles_try z (scratch_dir w) w1 = (Inr found, w2)" by blast
  from try_Inr_cases [OF tr] obtain files l r where
    ls: "fst (extracted_listing z w) = Inr files"
    and l: "find (pattern_test LEFT_FIRMWARE_PATTERN) files = Some l"
    and r: "find (pattern_test RIGHT_FIRMWARE_PATTERN) files = Some r"
    and f: "found = \<lparr>leftFirmware = path_join [scratch_dir w, l],
                      rightFirmware = path_join [scratch_dir w, r]\<rparr>"
    using en by (auto simp: unzipped_def extracted_listing_def)
  from l obtain i where i: "i < length files" "pattern_test LEFT_FIRMWARE_PATTERN (files ! i)"
    "l = files ! i" "\<forall>k<i. \<not> pattern_test LEFT_FIRMWARE_PATTERN (files ! k)"
    unfolding find_Some_iff by blast
  from r obtain j where j: "j < length files" "pattern_test RIGHT_FIRMWARE_PATTERN (files ! j)"
    "r = files ! j" "\<forall>k<j. \<not> pattern_test RIGHT_FIRMWARE_PATTERN (files ! k)"
    unfolding find_Some_iff by blast
  from ls i j f show "\<exists>files i j. fst (extracted_listing z w) = Inr files \<and>
         i < length files \<and> pattern_test LEFT_FIRMWARE_PATTERN (files ! i) \<and>
         (\<forall>k<i. \<not> pattern_test LEFT_FIRMWARE_PATTERN (files ! k)) \<and>
         leftFirmware found = path_join [scratch_dir w, files ! i] \<and>
         j < length files \<and> pattern_test RIGHT_FIRMWARE_PATTERN (files ! j) \<and>
         (\<forall>k<j. \<not> pattern_test RIGHT_FIRMWARE_PATTERN (files ! k)) \<and>
         rightFirmware found = path_join [scratch_dir w, files ! j] \<and>
         (i = j \<longrightarrow> leftFirmware found = rightFirmware found)"
    by auto
next
  fix files i
  assume a: "fst (fs_ensureDir (scratch_dir w) w) = Inr () \<and> fst (unzipped z w) = Inr () \<and>
       fst (extracted_listing z w) = Inr files \<and> i < length files \<and>
       pattern_test LEFT_FIRMWARE_PATTERN (files ! i) \<and> pattern_test RIGHT_FIRMWARE_PATTERN (files ! i) \<and>
       (\<forall>k<i. \<not> pattern_test LEFT_FIRMWARE_PATTERN (files ! k) \<and>
              \<not> pattern_test RIGHT_FIRMWARE_PATTERN (files ! k))"
  obtain w1 where en: "fs_ensureDir (scratch_dir w) w = (Inr (), w1)"
    using a by (metis prod.collapse)
  have w1: "snd (fs_ensureDir (scratch_dir w) w) = w1" using en by simp
  have l: "find (pattern_test LEFT_FIRMWARE_PATTERN) files = Some (files ! i)"
    unfolding find_Some_iff using a by blast
  have r: "find (pattern_test RIGHT_FIRMWARE_PATTERN) files = Some (files ! i)"
    unfolding find_Some_iff using a by blast
  show "fst (extractFirmwareFiles z w) =
           Inr \<lparr>leftFirmware = path_join [scratch_dir w, files ! i],
                rightFirmware = path_join [scratch_dir w, files ! i]\<rparr>"
    using a l r try_both_match [of z "scratch_dir w" w1 "()" files "files ! i" "files ! i"]
      extract_after_ensureDir [OF en, of z]
    by (simp add: unzipped_def extracted_listing_def w1)
next
  let ?w = "demo_world odd_archives_disk quiet"
  let ?n = "''sofle_left_sofle_right.uf2''"
  have h2: "pattern_test LEFT_FIRMWARE_PATTERN ?n" "pattern_test RIGHT_FIRMWARE_PATTERN ?n"
    by code_simp+
  have h3: "fst (extractFirmwareFiles ''/tmp/twin.zip'' ?w) =
        Inr \<lparr>leftFirmware = path_join [scratch_dir ?w, ?n],
             rightFirmware = path_join [scratch_dir ?w, ?n]\<rparr>"
    by code_simp
  have h4: "fst (extractFirmwareFiles ''/tmp/twin.zip'' (listed_backwards ?w)) =
        Inr \<lparr>leftFirmware = path_join [scratch_dir ?w, ?n],
             rightFirmware = path_join [scratch_dir ?w, ?n]\<rparr>"
    by code_simp
  from h2 h3 h4 show "\<exists>name. pattern_test LEFT_FIRMWARE_PATTERN name \<and> pattern_test RIGHT_FIRMWARE_PATTERN name \<and>
      fst (extractFirmwareFiles ''/tmp/twin.zip'' ?w) =
        Inr \<lparr>leftFirmware = path_join [scratch_dir ?w, name],
             rightFirmware = path_join [scratch_dir ?w, name]\<rparr> \<and>
      fst (extractFirmwareFiles ''/tmp/twin.zip'' (listed_backwards ?w)) =
        Inr \<lparr>leftFirmware = path_join [scratch_dir ?w, name],
             rightFirmware = path_join [scratch_dir ?w, name]\<rparr>"
    by blast
qed

text \<open>
  The archive \<^verbatim>\<open>/tmp/both.zip\<close> holds four files, three of them firmware files. Listed forwards,
  the name with both prefixes comes first and is chosen for both roles; listed backwards, each
  role gets a file of its own. In both cases each role's file is the first match of the listing.
\<close>

theorem extract_picks_first_match_witness:
  "fst (extracted_listing ''/tmp/both.zip'' (demo_world odd_archives_disk quiet))
     = Inr [''notes.txt'', ''sofle_left_sofle_right.uf2'', ''sofle_left.uf2'', ''sofle_right.uf2''] \<and>
   fst (extractFirmwareFiles ''/tmp/both.zip'' (demo_world odd_archives_disk quiet)) =
     Inr \<lparr>leftFirmware = ''/tmp/keyboard-firmware-90000000/sofle_left_sofle_right.uf2'',
          rightFirmware = ''/tmp/keyboard-firmware-90000000/sofle_left_sofle_right.uf2''\<rparr> \<and>
   fst (extracted_listing ''/tmp/both.zip'' (listed_backwards (demo_world odd_archives_disk quiet)))
     = Inr [''sofle_right.uf2'', ''sofle_left.uf2'', ''sofle_left_sofle_right.uf2'', ''notes.txt''] \<and>
   (\<exists>found. fst (extractFirmwareFiles ''/tmp/both.zip'' (listed_backwards (demo_world odd_archives_disk quiet)))
        = Inr found \<and>
      leftFirmware found = ''/tmp/keyboard-firmware-90000000/sofle_left.uf2'' \<and>
      rightFirmware found = ''/tmp/keyboard-firmware-90000000/sofle_right.uf2'')"
proof -
  let ?w = "demo_world odd_archives_disk quiet"
  let ?v = "listed_backwards (demo_world odd_archives_disk quiet)"
  let ?fs = "[''notes.txt'', ''sofle_left_sofle_right.uf2'', ''sofle_left.uf2'', ''sofle_right.uf2'']"
  have e: "fst (fs_ensureDir (scratch_dir ?w) ?w) = Inr ()" by code_simp
  have u: "fst (unzipped ''/tmp/both.zip'' ?w) = Inr ()" by code_simp
  have h1: "fst (extracted_listing ''/tmp/both.zip'' ?w) = Inr ?fs" by code_simp
  have m: "pattern_test LEFT_FIRMWARE_PATTERN (?fs ! 1)" "pattern_test RIGHT_FIRMWARE_PATTERN (?fs ! 1)"
    "\<not> pattern_test LEFT_FIRMWARE_PATTERN (?fs ! 0)" "\<not> pattern_test RIGHT_FIRMWARE_PATTERN (?fs ! 0)"
    by code_simp+
  have p: "path_join [scratch_dir ?w, ?fs ! 1] = ''/tmp/keyboard-firmware-90000000/sofle_left_sofle_right.uf2''"
    by code_simp
  have "fst (extractFirmwareFiles ''/tmp/both.zip'' ?w) =
     Inr \<lparr>leftFirmware = path_join [scratch_dir ?w, ?fs ! 1],
          rightFirmware = path_join [scratch_dir ?w, ?fs ! 1]\<rparr>"
    using extract_picks_first_match [of "''/tmp/both.zip''" ?w, THEN conjunct2, THEN conjunct1,
        rule_format, of ?fs 1] e u h1 m
    by (simp add: less_Suc_eq)
  then have a: "fst (extractFirmwareFiles ''/tmp/both.zip'' ?w) =
     Inr \<lparr>leftFirmware = ''/tmp/keyboard-firmware-90000000/sofle_left_sofle_right.uf2'',
          rightFirmware = ''/tmp/keyboard-firmware-90000000/sofle_left_sofle_right.uf2''\<rparr>"
    unfolding p .
  have h2: "fst (extracted_listing ''/tmp/both.zip'' ?v)
     = Inr [''sofle_right.uf2'', ''sofle_left.uf2'', ''sofle_left_sofle_right.uf2'', ''notes.txt'']"
    by code_simp
  have b: "fst (extractFirmwareFiles ''/tmp/both.zip'' ?v) =
     Inr \<lparr>leftFirmware = ''/tmp/keyboard-firmware-90000000/sofle_left.uf2'',
          rightFirmware = ''/tmp/keyboard-firmware-90000000/sofle_right.uf2''\<rparr>"
    by code_simp
  from h1 a h2 b show ?thesis by simp
qed

section \<open>The readiness check\<close>


lemma observe_fst: "fst (observe c f w) = f (outside w (ticks w) (disk w))"
  by (simp add: observe_def Let_def await_def)

lemma observe_snd_fields:
  "disk (snd (observe c f w)) = outside w (ticks w) (disk w)"
  "ticks (snd (observe c f w)) = Suc (ticks w)"
  "outside (snd (observe c f w)) = outside w"
  "clock (snd (observe c f w)) = clock w"
  "console (snd (observe c f w)) = console w"
  "trace (snd (observe c f w)) = trace w @ [(c, failure (f (outside w (ticks w) (disk w))))]"
  by (simp_all add: observe_def Let_def await_def record_call_def)

lemma still_observe: "still (snd (observe c f w)) = still w"
  by (simp add: still_def observe_snd_fields)

lemma isVolumeReady_try_eq:
  "fst (isVolumeReady_try w) = Inr True \<longleftrightarrow>
     path_exists (outside w (ticks w) (disk w)) NICENANO_VOLUME \<and>
     listable (outside w (Suc (ticks w)) (outside w (ticks w) (disk w))) NICENANO_VOLUME \<and>
     writable (outside w (Suc (Suc (ticks w))) (outside w (Suc (ticks w)) (outside w (ticks w) (disk w))))
       NICENANO_VOLUME"
proof -
  let ?a = "fs_access NICENANO_VOLUME F_OK w"
  let ?b = "fs_readdir NICENANO_VOLUME (snd ?a)"
  let ?c = "fs_access NICENANO_VOLUME W_OK (snd ?b)"
  have t: "fst (isVolumeReady_try w) = Inr True \<longleftrightarrow>
      (\<exists>u. fst ?a = Inr u) \<and> (\<exists>files. fst ?b = Inr files) \<and> (\<exists>u. fst ?c = Inr u)"
    by (auto simp: isVolumeReady_try_def split: prod.splits sum.splits)
  have a: "(\<exists>u. fst ?a = Inr u) \<longleftrightarrow> path_exists (outside w (ticks w) (disk w)) NICENANO_VOLUME"
    by (auto simp: fs_access_def observe_fst access_check_def path_exists_def split: option.splits)
  have b: "(\<exists>files. fst ?b = Inr files) \<longleftrightarrow>
      listable (outside w (Suc (ticks w)) (outside w (ticks w) (disk w))) NICENANO_VOLUME"
    by (auto simp: fs_access_def fs_readdir_def observe_fst observe_snd_fields listable_def
             split: sum.splits)
  have c: "(\<exists>u. fst ?c = Inr u) \<longleftrightarrow>
      writable (outside w (Suc (Suc (ticks w))) (outside w (Suc (ticks w)) (outside w (ticks w) (disk w))))
        NICENANO_VOLUME"
    by (auto simp: fs_access_def fs_readdir_def observe_fst observe_snd_fields writable_def
             split: sum.splits)
  show ?thesis unfolding t a b c ..
qed

lemma isVolumeReady_try_bool: "fst (isVolumeReady_try w) = Inr b \<Longrightarrow> b"
  by (auto simp: isVolumeReady_try_def split: prod.splits sum.splits)

lemma isVolumeReady_total: "\<exists>b. fst (isVolumeReady w) = Inr b"
  by (auto simp: isVolumeReady_def split: prod.splits sum.splits)

lemma isVolumeReady_True_iff:
  "fst (isVolumeReady w) = Inr True \<longleftrightarrow> fst (isVolumeReady_try w) = Inr True"
  by (auto simp: isVolumeReady_def split: prod.splits sum.splits)

lemma still_demo_world: "still (demo_world d quiet)"
  by (simp add: still_def demo_world_def quiet_def fun_eq_iff)

text \<open>
  Claim C2. \<^verbatim>\<open>isVolumeReady\<close> never raises: it always answers with a truth value. The answer is
  true exactly when the mount path exists as the first probe looks, can be listed as the second
  probe looks and is writable as the third probe looks; in a world whose outside is still, these
  are the three properties of the one file system the check started in.
\<close>

theorem isVolumeReady_all_three:
  "(\<exists>b. fst (isVolumeReady w) = Inr b) \<and>
   fst (isVolumeReady w) =
     Inr (path_exists (outside w (ticks w) (disk w)) NICENANO_VOLUME \<and>
          listable (outside w (Suc (ticks w)) (outside w (ticks w) (disk w))) NICENANO_VOLUME \<and>
          writable (outside w (Suc (Suc (ticks w))) (outside w (Suc (ticks w)) (outside w (ticks w) (disk w))))
            NICENANO_VOLUME) \<and>
   (still w \<longrightarrow>
      fst (isVolumeReady w) =
        Inr (path_exists (disk w) NICENANO_VOLUME \<and> listable (disk w) NICENANO_VOLUME \<and>
             writable (disk w) NICENANO_VOLUME))"
proof -
  let ?P = "path_exists (outside w (ticks w) (disk w)) NICENANO_VOLUME \<and>
          listable (outside w (Suc (ticks w)) (outside w (ticks w) (disk w))) NICENANO_VOLUME \<and>
          writable (outside w (Suc (Suc (ticks w))) (outside w (Suc (ticks w)) (outside w (ticks w) (disk w))))
            NICENANO_VOLUME"
  obtain b where b: "fst (isVolumeReady w) = Inr b" using isVolumeReady_total by blast
  have "b \<longleftrightarrow> ?P"
    using b isVolumeReady_True_iff [of w] isVolumeReady_try_eq [of w] by (cases b) auto
  with b have g: "fst (isVolumeReady w) = Inr ?P" by simp
  have "still w \<Longrightarrow> fst (isVolumeReady w) =
        Inr (path_exists (disk w) NICENANO_VOLUME \<and> listable (disk w) NICENANO_VOLUME \<and>
             writable (disk w) NICENANO_VOLUME)"
    using g by (simp add: still_def)
  with b g show ?thesis by blast
qed

theorem isVolumeReady_all_three_witness:
  "still (demo_world (mount_volume True demo_disk) quiet) \<and>
   fst (isVolumeReady (demo_world (mount_volume True demo_disk) quiet)) = Inr True \<and>
   fst (isVolumeReady (demo_world (mount_volume False demo_disk) quiet)) = Inr False \<and>
   fst (isVolumeReady (demo_world demo_disk quiet)) = Inr False \<and>
   fst (isVolumeReady (demo_world (AList.update NICENANO_VOLUME (Node 0 False True Directory) demo_disk) quiet))
     = Inr False \<and>
   fst (isVolumeReady (demo_world (mount_volume True demo_disk)
          (\<lambda>n. if n = 2 then unmount_volume else quiet n))) = Inr False"
proof -
  let ?w = "demo_world (mount_volume True demo_disk) quiet"
  have s: "still ?w" by (rule still_demo_world)
  have e: "path_exists (disk ?w) NICENANO_VOLUME" "listable (disk ?w) NICENANO_VOLUME"
    "writable (disk ?w) NICENANO_VOLUME"
    by code_simp+
  from isVolumeReady_all_three [of ?w]
  have "still ?w \<longrightarrow> fst (isVolumeReady ?w) =
        Inr (path_exists (disk ?w) NICENANO_VOLUME \<and> listable (disk ?w) NICENANO_VOLUME \<and>
             writable (disk ?w) NICENANO_VOLUME)"
    by (rule conjunct2 [THEN conjunct2])
  with s e have a: "fst (isVolumeReady ?w) = Inr True" by simp
  have b: "fst (isVolumeReady (demo_world (mount_volume False demo_disk) quiet)) = Inr False"
    by code_simp
  have c: "fst (isVolumeReady (demo_world demo_disk quiet)) = Inr False"
    by code_simp
  have d: "fst (isVolumeReady (demo_world (AList.update NICENANO_VOLUME (Node 0 False True Directory) demo_disk) quiet))
     = Inr False"
    by code_simp
  have f: "fst (isVolumeReady (demo_world (mount_volume True demo_disk)
          (\<lambda>n. if n = 2 then unmount_volume else quiet n))) = Inr False"
    by code_simp
  from s a b c d f show ?thesis by blast
qed

section \<open>Waiting for the bootloader\<close>

lemma wait_loop_ready:
  assumes "fst (isVolumeReady w) = Inr True"
  shows "wait_loop s w = Some (Inr (), detected s (snd (isVolumeReady w)))"
  using assms
  by (subst wait_loop.simps) (auto simp: detected_def split: prod.splits sum.splits)

lemma wait_loop_not_ready:
  assumes "fst (isVolumeReady w) \<noteq> Inr True"
  shows "wait_loop s w = wait_loop s (next_poll w)"
proof -
  from isVolumeReady_total [of w] assms have "fst (isVolumeReady w) = Inr False" by auto
  then show ?thesis
    by (subst wait_loop.simps) (auto simp: next_poll_def split: prod.splits sum.splits)
qed

lemma poll_world_Suc: "poll_world (Suc k) w = poll_world k (next_poll w)"
  by (simp add: poll_world_def funpow_swap1)

lemma ready_at_Suc: "ready_at (Suc k) w = ready_at k (next_poll w)"
  by (simp add: ready_at_def poll_world_Suc)

lemma wait_loop_first_ready:
  "ready_at k w \<Longrightarrow> (\<forall>j<k. \<not> ready_at j w) \<Longrightarrow>
     wait_loop s w = Some (Inr (), detected s (snd (isVolumeReady (poll_world k w))))"
proof (induction k arbitrary: w)
  case 0
  then show ?case
    by (simp add: ready_at_def poll_world_def wait_loop_ready)
next
  case (Suc k)
  from Suc.prems(2) have "\<not> ready_at 0 w" by blast
  then have n: "fst (isVolumeReady w) \<noteq> Inr True" by (simp add: ready_at_def poll_world_def)
  have r: "ready_at k (next_poll w)" using Suc.prems(1) by (simp add: ready_at_Suc)
  have "\<forall>j<k. \<not> ready_at j (next_poll w)"
    using Suc.prems(2) by (auto simp: ready_at_Suc [symmetric])
  from Suc.IH [OF r this] show ?case
    by (simp add: wait_loop_not_ready [OF n] poll_world_Suc)
qed

lemma wait_loop_returns_ready:
  assumes a: "wait_loop s w = Some r"
  shows "(\<exists>k. ready_at k w) \<and> fst r = Inr ()"
proof (rule wait_loop.raw_induct
    [where P = "\<lambda>s w r. (\<exists>k. ready_at k w) \<and> fst r = Inr ()" and s = s and w = w and y = r])
  fix f s' w' r'
  assume IH: "\<And>s w y. f s w = Some y \<Longrightarrow> (\<exists>k. ready_at k w) \<and> fst y = Inr ()"
    and body: "(case isVolumeReady w' of
        (Inl e, w1) \<Rightarrow> Some (Inl e, w1)
      | (Inr ready, w1) \<Rightarrow>
          if ready
          then Some (Inr (), sleep 1500
                 (console_log (side_upper s' @ '' keyboard detected in bootloader mode!'') w1))
          else f s' (sleep 1000 w1)) = Some r'"
  show "(\<exists>k. ready_at k w') \<and> fst r' = Inr ()"
  proof (cases "fst (isVolumeReady w') = Inr True")
    case True
    then have "ready_at 0 w'" by (simp add: ready_at_def poll_world_def)
    moreover have "fst r' = Inr ()"
      using body True by (auto split: prod.splits sum.splits if_splits)
    ultimately show ?thesis by blast
  next
    case False
    with isVolumeReady_total [of w'] have "fst (isVolumeReady w') = Inr False" by auto
    with body have "f s' (next_poll w') = Some r'"
      by (auto simp: next_poll_def split: prod.splits sum.splits if_splits)
    from IH [OF this] obtain k where "ready_at k (next_poll w')" and r: "fst r' = Inr ()" by blast
    then have "ready_at (Suc k) w'" by (simp add: ready_at_Suc)
    with r show ?thesis by blast
  qed
next
  show "wait_loop s w = Some r" by (rule a)
qed

lemma wait_loop_never_ready: "(\<forall>k. \<not> ready_at k w) \<Longrightarrow> wait_loop s w = None"
  using wait_loop_returns_ready [of s w] by (cases "wait_loop s w") auto

lemma sleep_fields:
  "disk (sleep ms w) = outside w (ticks w) (disk w)"
  "ticks (sleep ms w) = Suc (ticks w)"
  "outside (sleep ms w) = outside w"
  "clock (sleep ms w) = clock w + int ms"
  "console (sleep ms w) = console w"
  "trace (sleep ms w) = trace w @ [(SetTimeout ms, None)]"
  by (simp_all add: sleep_def await_def record_call_def)

lemma console_fields:
  "disk (console_log m w) = disk w" "ticks (console_log m w) = ticks w"
  "outside (console_log m w) = outside w" "clock (console_log m w) = clock w"
  "trace (console_log m w) = trace w"
  "disk (console_warn m w) = disk w" "ticks (console_warn m w) = ticks w"
  "outside (console_warn m w) = outside w" "clock (console_warn m w) = clock w"
  "trace (console_warn m w) = trace w"
  "disk (console_error m e w) = disk w" "ticks (console_error m e w) = ticks w"
  "outside (console_error m e w) = outside w" "clock (console_error m e w) = clock w"
  "trace (console_error m e w) = trace w"
  by (simp_all add: console_log_def console_warn_def console_error_def)

lemma observations_simps:
  "observations (sleep ms w) = observations w"
  "observations (console_log m w) = observations w"
  by (simp_all add: observations_def sleep_fields console_fields)

lemma observations_isVolumeReady:
  "observations (snd (isVolumeReady w)) = Suc (observations w)"
  by (auto simp: observations_def isVolumeReady_def isVolumeReady_try_def fs_access_def fs_readdir_def
        observe_def Let_def await_def record_call_def split: prod.splits sum.splits)

lemma observations_poll_world: "observations (poll_world k w) = observations w + k"
proof (induction k arbitrary: w)
  case 0
  then show ?case by (simp add: poll_world_def)
next
  case (Suc k)
  then show ?case
    by (simp add: poll_world_Suc next_poll_def observations_simps observations_isVolumeReady)
qed

lemma observations_detected:
  "observations (detected s (snd (isVolumeReady (poll_world k w)))) = observations w + k + 1"
  by (simp add: detected_def observations_simps observations_isVolumeReady observations_poll_world)

lemma waitForBootloaderMode_announced:
  "waitForBootloaderMode s w = wait_loop s (announced s w)"
  by (simp add: waitForBootloaderMode_def announced_def)

lemmas run_defs =
  ready_at_def poll_world_def next_poll_def announced_def detected_def observations_def
  isVolumeReady_def isVolumeReady_try_def fs_access_def fs_readdir_def observe_def mutate_def
  await_def record_call_def failure_def sleep_def console_log_def console_warn_def console_error_def
  access_check_def readdir_check_def list_dir_def child_name_def path_exists_def
  demo_world_def demo_disk_def plain_dir_def quiet_def mount_volume_def unmount_volume_def under_def
  NICENANO_VOLUME_def Let_def side_name_def side_upper_def

lemma isVolumeReady_still:
  assumes "still w"
  shows "disk (snd (isVolumeReady w)) = disk w" "outside (snd (isVolumeReady w)) = outside w"
  using assms
  by (auto simp: still_def isVolumeReady_def isVolumeReady_try_def fs_access_def fs_readdir_def
        observe_def Let_def await_def record_call_def split: prod.splits sum.splits)

lemma next_poll_still:
  assumes "still w"
  shows "disk (next_poll w) = disk w" "still (next_poll w)"
proof -
  have o: "outside (snd (isVolumeReady w)) = outside w" by (rule isVolumeReady_still(2) [OF assms])
  show "disk (next_poll w) = disk w"
    using assms isVolumeReady_still(1) [OF assms] o by (simp add: next_poll_def sleep_fields still_def)
  show "still (next_poll w)"
    using assms o by (simp add: next_poll_def sleep_fields still_def)
qed

lemma never_ready_when_absent:
  "still w \<Longrightarrow> \<not> path_exists (disk w) NICENANO_VOLUME \<Longrightarrow> \<not> ready_at k w"
proof (induction k arbitrary: w)
  case 0
  then show ?case
    using isVolumeReady_try_eq [of w]
    by (simp add: ready_at_def poll_world_def isVolumeReady_True_iff still_def)
next
  case (Suc k)
  from Suc.IH [of "next_poll w"] Suc.prems show ?case
    by (simp add: ready_at_Suc next_poll_still)
qed

text \<open>
  Claim C3. \<^verbatim>\<open>waitForBootloaderMode\<close> returns exactly upon the first readiness check that answers
  true: if the check answers true for the first time at its \<open>k\<close>-th run (counting from 0), the
  wait returns from the world of that check, after the message and one settle delay of 1500 ms,
  having made \<open>k + 1\<close> checks and none after the true one. It has no failure exit: whatever it
  returns is a success, reached through a true check; and when no check ever answers true it
  never returns. A mount that is ready at entry is checked exactly once.
\<close>

theorem waitForBootloaderMode_first_ready:
  "(\<forall>k. ready_at k (announced s w) \<and> (\<forall>j<k. \<not> ready_at j (announced s w)) \<longrightarrow>
      waitForBootloaderMode s w =
        Some (Inr (), detected s (snd (isVolumeReady (poll_world k (announced s w))))) \<and>
      observations (detected s (snd (isVolumeReady (poll_world k (announced s w)))))
        = observations w + k + 1 \<and>
      last (trace (detected s (snd (isVolumeReady (poll_world k (announced s w))))))
        = (SetTimeout 1500, None)) \<and>
   ((\<forall>k. \<not> ready_at k (announced s w)) \<longrightarrow> waitForBootloaderMode s w = None) \<and>
   (\<forall>r. waitForBootloaderMode s w = Some r \<longrightarrow>
      fst r = Inr () \<and> (\<exists>k. ready_at k (announced s w))) \<and>
   (ready_at 0 (announced s w) \<longrightarrow>
      waitForBootloaderMode s w = Some (Inr (), detected s (snd (isVolumeReady (announced s w)))) \<and>
      observations (detected s (snd (isVolumeReady (announced s w)))) = observations w + 1)"
proof -
  have o: "observations (announced s w) = observations w"
    by (simp add: announced_def observations_simps)
  have A: "waitForBootloaderMode s w =
        Some (Inr (), detected s (snd (isVolumeReady (poll_world k (announced s w))))) \<and>
      observations (detected s (snd (isVolumeReady (poll_world k (announced s w)))))
        = observations w + k + 1 \<and>
      last (trace (detected s (snd (isVolumeReady (poll_world k (announced s w))))))
        = (SetTimeout 1500, None)"
    if "ready_at k (announced s w)" "\<forall>j<k. \<not> ready_at j (announced s w)" for k
    using wait_loop_first_ready [OF that, of s] observations_detected [of s k "announced s w"] o
    by (simp add: waitForBootloaderMode_announced detected_def sleep_fields)
  have B: "waitForBootloaderMode s w = None" if "\<forall>k. \<not> ready_at k (announced s w)"
    using wait_loop_never_ready [OF that] by (simp add: waitForBootloaderMode_announced)
  have C: "fst r = Inr () \<and> (\<exists>k. ready_at k (announced s w))"
    if "waitForBootloaderMode s w = Some r" for r
    using wait_loop_returns_ready [of s "announced s w" r] that
    by (simp add: waitForBootloaderMode_announced)
  have D: "waitForBootloaderMode s w = Some (Inr (), detected s (snd (isVolumeReady (announced s w)))) \<and>
      observations (detected s (snd (isVolumeReady (announced s w)))) = observations w + 1"
    if "ready_at 0 (announced s w)"
    using A [of 0] that by (simp add: poll_world_def)
  from A B C D show ?thesis by blast
qed

theorem waitForBootloaderMode_first_ready_witness:
  "ready_at 4 (announced Left (demo_world demo_disk (\<lambda>n. if n = 7 then mount_volume True else quiet n))) \<and>
   \<not> ready_at 3 (announced Left (demo_world demo_disk (\<lambda>n. if n = 7 then mount_volume True else quiet n))) \<and>
   map_option fst (waitForBootloaderMode Left
       (demo_world demo_disk (\<lambda>n. if n = 7 then mount_volume True else quiet n))) = Some (Inr ()) \<and>
   map_option (\<lambda>r. observations (snd r)) (waitForBootloaderMode Left
       (demo_world demo_disk (\<lambda>n. if n = 7 then mount_volume True else quiet n))) = Some 5 \<and>
   map_option (\<lambda>r. observations (snd r)) (waitForBootloaderMode Right
       (demo_world (mount_volume True demo_disk) quiet)) = Some 1 \<and>
   waitForBootloaderMode Left (demo_world demo_disk quiet) = None"
proof -
  let ?late = "demo_world demo_disk (\<lambda>n. if n = 7 then mount_volume True else quiet n)"
  let ?now = "demo_world (mount_volume True demo_disk) quiet"
  let ?never = "demo_world demo_disk quiet"
  have r4: "ready_at 4 (announced Left ?late)" by (simp add: run_defs eval_nat_numeral)
  have n: "\<not> ready_at 0 (announced Left ?late)" "\<not> ready_at 1 (announced Left ?late)"
    "\<not> ready_at 2 (announced Left ?late)" "\<not> ready_at 3 (announced Left ?late)"
    by (simp_all add: run_defs eval_nat_numeral)
  have before: "\<forall>j<4. \<not> ready_at j (announced Left ?late)"
  proof (intro allI impI)
    fix j :: nat assume "j < 4"
    then have "j = 0 \<or> j = 1 \<or> j = 2 \<or> j = 3" by arith
    with n show "\<not> ready_at j (announced Left ?late)" by auto
  qed
  have o: "observations ?late = 0" "observations ?now = 0" by (simp_all add: run_defs eval_nat_numeral)
  from waitForBootloaderMode_first_ready [of Left ?late] r4 before
  have "waitForBootloaderMode Left ?late =
        Some (Inr (), detected Left (snd (isVolumeReady (poll_world 4 (announced Left ?late))))) \<and>
      observations (detected Left (snd (isVolumeReady (poll_world 4 (announced Left ?late)))))
        = observations ?late + 4 + 1"
    by blast
  with o have a: "map_option fst (waitForBootloaderMode Left ?late) = Some (Inr ())"
    "map_option (\<lambda>r. observations (snd r)) (waitForBootloaderMode Left ?late) = Some 5"
    by simp_all
  have r0: "ready_at 0 (announced Right ?now)" by (simp add: run_defs eval_nat_numeral)
  from waitForBootloaderMode_first_ready [of Right ?now] r0
  have "waitForBootloaderMode Right ?now =
          Some (Inr (), detected Right (snd (isVolumeReady (announced Right ?now)))) \<and>
      observations (detected Right (snd (isVolumeReady (announced Right ?now)))) = observations ?now + 1"
    by blast
  with o have b: "map_option (\<lambda>r. observations (snd r)) (waitForBootloaderMode Right ?now) = Some 1"
    by simp
  have s: "still (announced Left ?never)"
    using still_demo_world [of demo_disk] by (simp add: still_def announced_def console_fields)
  have "\<not> path_exists (disk (announced Left ?never)) NICENANO_VOLUME" by (simp add: run_defs eval_nat_numeral)
  with s have "\<forall>k. \<not> ready_at k (announced Left ?never)"
    using never_ready_when_absent by blast
  with waitForBootloaderMode_first_ready [of Left ?never]
  have c: "waitForBootloaderMode Left ?never = None" by blast
  from r4 n(4) a b c show ?thesis by blast
qed

section \<open>Copying with retries\<close>

declare animate_loop.simps [simp del] copy_loop.simps [simp del]

lemma animate_loop_stop:
  "\<not> (i \<le> 100 \<and> 0 < st) \<Longrightarrow> animate_loop i st t w = w"
  by (subst animate_loop.simps) auto

lemma animate_loop_step:
  "i \<le> 100 \<and> 0 < st \<Longrightarrow> animate_loop i st t w = animate_loop (i + st) st t (sleep t w)"
  by (subst animate_loop.simps) simp

lemma animate_loop_outside: "outside (animate_loop i st t w) = outside w"
proof (induction i st t w rule: animate_loop.induct)
  case (1 i stepSize stepTimeMs w)
  show ?case
  proof (cases "i \<le> 100 \<and> 0 < stepSize")
    case True
    with 1 show ?thesis by (simp add: animate_loop_step sleep_fields)
  next
    case False
    then show ?thesis by (simp add: animate_loop_stop)
  qed
qed

lemma animate_loop_trace:
  "\<exists>n. trace (animate_loop i st t w) = trace w @ replicate n (SetTimeout t, None)"
proof (induction i st t w rule: animate_loop.induct)
  case (1 i stepSize stepTimeMs w)
  show ?case
  proof (cases "i \<le> 100 \<and> 0 < stepSize")
    case True
    with 1 obtain n where
      "trace (animate_loop (i + stepSize) stepSize stepTimeMs (sleep stepTimeMs w))
         = trace (sleep stepTimeMs w) @ replicate n (SetTimeout stepTimeMs, None)"
      by blast
    then have "trace (animate_loop i stepSize stepTimeMs w)
         = trace w @ replicate (Suc n) (SetTimeout stepTimeMs, None)"
      by (simp add: animate_loop_step [OF True] sleep_fields)
    then show ?thesis by blast
  next
    case False
    then have "trace (animate_loop i stepSize stepTimeMs w) = trace w @ replicate 0 (SetTimeout stepTimeMs, None)"
      by (simp add: animate_loop_stop)
    then show ?thesis by blast
  qed
qed

lemma animateProgressBar_trace:
  "\<exists>n. trace (animateProgressBar d status steps w) = trace w @ replicate n (SetTimeout (d div steps), None)"
  unfolding animateProgressBar_def by (rule animate_loop_trace)

lemma checks_append_timers:
  "length (filter (\<lambda>(c, r). c = Access NICENANO_VOLUME W_OK) (t @ replicate n (SetTimeout ms, None)))
     = length (filter (\<lambda>(c, r). c = Access NICENANO_VOLUME W_OK) t)"
  by (induction n) (simp_all add: replicate_app_Cons_same)

lemma checks_animate: "writability_checks (animateProgressBar d status steps w) = writability_checks w"
  using animateProgressBar_trace [of d status steps w]
  by (auto simp: writability_checks_def checks_append_timers)

lemma checks_console:
  "writability_checks (console_log m w) = writability_checks w"
  "writability_checks (console_warn m w) = writability_checks w"
  "writability_checks (console_error m e w) = writability_checks w"
  by (simp_all add: writability_checks_def console_fields)

lemma checks_prepared: "writability_checks (prepared s w) = writability_checks w"
  by (simp add: prepared_def checks_animate checks_console)

lemma checks_retry_wait: "writability_checks (retry_wait s n w) = writability_checks w"
  by (simp add: retry_wait_def checks_animate checks_console)

lemma copy_try_prepared:
  "copy_try firmwarePath s w =
     (case fs_access NICENANO_VOLUME W_OK (prepared s w) of
        (Inl e, w4) \<Rightarrow> (Inl e, w4)
      | (Inr u, w4) \<Rightarrow>
          (case fs_copy firmwarePath (path_join [NICENANO_VOLUME, path_basename firmwarePath]) w4 of
             (Inl e, w5) \<Rightarrow> (Inl e, w5)
           | (Inr u', w5) \<Rightarrow>
               (Inr (), animateProgressBar 1000 ''Restarting keyboard...'' 20
                  (console_log ''Waiting for keyboard to restart...''
                    (console_log (side_upper s @ '' firmware copied successfully!'') w5)))))"
  unfolding copy_try_def prepared_def Let_def ..

lemma mutate_snd_trace:
  "trace (snd (mutate c f w)) = trace w @ [(c, failure (fst (mutate c f w)))]"
  by (auto simp: mutate_def Let_def await_def record_call_def failure_def split: sum.splits)

lemma checks_mutate_copy:
  "writability_checks (snd (fs_copy src dest w)) = writability_checks w"
  by (simp add: writability_checks_def fs_copy_def mutate_snd_trace)

lemma checks_access:
  "writability_checks (snd (fs_access NICENANO_VOLUME W_OK w)) = Suc (writability_checks w)"
  by (simp add: writability_checks_def fs_access_def observe_snd_fields)

lemma checks_copy_try:
  "writability_checks (snd (copy_try firmwarePath s w)) = Suc (writability_checks w)"
proof -
  obtain r w4 where a: "fs_access NICENANO_VOLUME W_OK (prepared s w) = (r, w4)"
    by (cases "fs_access NICENANO_VOLUME W_OK (prepared s w)")
  then have c4: "writability_checks w4 = Suc (writability_checks w)"
    using checks_access [of "prepared s w"] by (simp add: checks_prepared)
  obtain r' w5 where b: "fs_copy firmwarePath (path_join [NICENANO_VOLUME, path_basename firmwarePath]) w4 = (r', w5)"
    by (cases "fs_copy firmwarePath (path_join [NICENANO_VOLUME, path_basename firmwarePath]) w4")
  then have c5: "writability_checks w5 = writability_checks w4"
    using checks_mutate_copy [of firmwarePath "path_join [NICENANO_VOLUME, path_basename firmwarePath]" w4]
    by simp
  show ?thesis
    unfolding copy_try_prepared using a b c4 c5
    by (auto simp: checks_animate checks_console split: sum.splits)
qed

lemma copy_loop_success:
  assumes "retries < maxRetries" "fst (copy_try firmwarePath s w) = Inr ()"
  shows "copy_loop firmwarePath s retries w = (Inr (), snd (copy_try firmwarePath s w))"
proof -
  obtain w1 where "copy_try firmwarePath s w = (Inr (), w1)"
    using assms(2) by (cases "copy_try firmwarePath s w") simp
  with assms(1) show ?thesis
    by (subst copy_loop.simps) simp
qed

lemma copy_loop_retry:
  assumes "Suc retries < maxRetries" "fst (copy_try firmwarePath s w) = Inl e"
  shows "copy_loop firmwarePath s retries w =
           copy_loop firmwarePath s (Suc retries) (retry_wait s (Suc retries) (snd (copy_try firmwarePath s w)))"
proof -
  obtain w1 where "copy_try firmwarePath s w = (Inl e, w1)"
    using assms(2) by (cases "copy_try firmwarePath s w") simp
  with assms(1) show ?thesis
    by (subst copy_loop.simps) (simp add: retry_wait_def)
qed

lemma copy_loop_exhausted:
  assumes "Suc retries = maxRetries" "fst (copy_try firmwarePath s w) = Inl e"
  shows "copy_loop firmwarePath s retries w =
           (Inl e, console_error
              (''Error copying '' @ side_name s @ '' firmware after '' @ show_nat maxRetries @ '' attempts:'')
              (Some e) (snd (copy_try firmwarePath s w)))"
proof -
  obtain w1 where "copy_try firmwarePath s w = (Inl e, w1)"
    using assms(2) by (cases "copy_try firmwarePath s w") simp
  moreover from assms(1) have "retries < maxRetries" "maxRetries \<le> Suc retries" by simp_all
  ultimately show ?thesis
    by (subst copy_loop.simps) simp
qed

lemma attempt_world_shift:
  "attempt_world (Suc r) f s k (retry_wait s (Suc r) (snd (copy_try f s w))) = attempt_world r f s (Suc k) w"
  by (induction k) simp_all

lemma copy_loop_succeeds_at:
  "r + k < maxRetries \<Longrightarrow>
   (\<forall>j<k. \<exists>e. fst (copy_try f s (attempt_world r f s j w)) = Inl e) \<Longrightarrow>
   fst (copy_try f s (attempt_world r f s k w)) = Inr () \<Longrightarrow>
   copy_loop f s r w = (Inr (), snd (copy_try f s (attempt_world r f s k w)))"
proof (induction k arbitrary: r w)
  case 0
  then show ?case by (simp add: copy_loop_success)
next
  case (Suc k)
  from Suc.prems(2) obtain e where e: "fst (copy_try f s w) = Inl e" by force
  let ?w = "retry_wait s (Suc r) (snd (copy_try f s w))"
  have lt: "Suc r < maxRetries" "Suc r + k < maxRetries" using Suc.prems(1) by simp_all
  have fails: "\<forall>j<k. \<exists>e. fst (copy_try f s (attempt_world (Suc r) f s j ?w)) = Inl e"
  proof (intro allI impI)
    fix j assume "j < k"
    then have "Suc j < Suc k" by simp
    with Suc.prems(2) show "\<exists>e. fst (copy_try f s (attempt_world (Suc r) f s j ?w)) = Inl e"
      unfolding attempt_world_shift by blast
  qed
  have ok: "fst (copy_try f s (attempt_world (Suc r) f s k ?w)) = Inr ()"
    unfolding attempt_world_shift by (rule Suc.prems(3))
  from Suc.IH [OF lt(2) fails ok] show ?case
    unfolding copy_loop_retry [OF lt(1) e] attempt_world_shift .
qed

lemma copy_loop_exhausts_at:
  "Suc (r + k) = maxRetries \<Longrightarrow>
   (\<forall>j<k. \<exists>e. fst (copy_try f s (attempt_world r f s j w)) = Inl e) \<Longrightarrow>
   fst (copy_try f s (attempt_world r f s k w)) = Inl e \<Longrightarrow>
   copy_loop f s r w =
     (Inl e, console_error
        (''Error copying '' @ side_name s @ '' firmware after '' @ show_nat maxRetries @ '' attempts:'')
        (Some e) (snd (copy_try f s (attempt_world r f s k w))))"
proof (induction k arbitrary: r w)
  case 0
  then show ?case by (simp add: copy_loop_exhausted)
next
  case (Suc k)
  from Suc.prems(2) obtain e' where e': "fst (copy_try f s w) = Inl e'" by force
  let ?w = "retry_wait s (Suc r) (snd (copy_try f s w))"
  have lt: "Suc r < maxRetries" "Suc (Suc r + k) = maxRetries" using Suc.prems(1) by simp_all
  have fails: "\<forall>j<k. \<exists>e. fst (copy_try f s (attempt_world (Suc r) f s j ?w)) = Inl e"
  proof (intro allI impI)
    fix j assume "j < k"
    then have "Suc j < Suc k" by simp
    with Suc.prems(2) show "\<exists>e. fst (copy_try f s (attempt_world (Suc r) f s j ?w)) = Inl e"
      unfolding attempt_world_shift by blast
  qed
  have last: "fst (copy_try f s (attempt_world (Suc r) f s k ?w)) = Inl e"
    unfolding attempt_world_shift by (rule Suc.prems(3))
  from Suc.IH [OF lt(2) fails last] show ?case
    unfolding copy_loop_retry [OF lt(1) e'] attempt_world_shift .
qed

lemma checks_attempt_world:
  "writability_checks (attempt_world r f s k w) = writability_checks w + k"
  by (induction k) (simp_all add: checks_retry_wait checks_copy_try)

lemma checks_copy_loop_bound:
  "writability_checks (snd (copy_loop f s r w)) \<le> writability_checks w + (maxRetries - r)"
proof (induction f s r w rule: copy_loop.induct)
  case (1 f s r w)
  show ?case
  proof (cases "r < maxRetries")
    case False
    then show ?thesis by (subst copy_loop.simps) simp
  next
    case True
    show ?thesis
    proof (cases "fst (copy_try f s w)")
      case (Inr u)
      then have "fst (copy_try f s w) = Inr ()" by simp
      from copy_loop_success [OF True this] True show ?thesis
        by (simp add: checks_copy_try)
    next
      case (Inl e)
      show ?thesis
      proof (cases "Suc r = maxRetries")
        case True
        from copy_loop_exhausted [OF True Inl] show ?thesis
          using True by (simp add: checks_copy_try checks_console)
      next
        case False
        with \<open>r < maxRetries\<close> have lt: "Suc r < maxRetries" by simp
        obtain w1 where w1: "copy_try f s w = (Inl e, w1)" using Inl by (cases "copy_try f s w") simp
        from lt have n: "\<not> maxRetries \<le> Suc r" by simp
        have "writability_checks (snd (copy_loop f s (Suc r) (retry_wait s (Suc r) w1)))
                \<le> writability_checks (retry_wait s (Suc r) w1) + (maxRetries - Suc r)"
          using "1.IH" [OF \<open>r < maxRetries\<close> w1 [symmetric] refl n]
          by (simp add: retry_wait_def)
        then show ?thesis
          unfolding copy_loop_retry [OF lt Inl] using w1 checks_copy_try [of f s w] lt
          by (simp add: checks_retry_wait)
      qed
    qed
  qed
qed

lemma guarded_after_append:
  "guarded_after p (a @ b) = (guarded_after p a \<and> guarded_after (last (p # a)) b)"
  by (induction a arbitrary: p) auto

lemma copies_guarded_append:
  assumes "copies_guarded a" "copies_guarded b"
  shows "copies_guarded (a @ b)"
proof (cases a)
  case Nil
  with assms show ?thesis by simp
next
  case (Cons e r)
  show ?thesis
  proof (cases b)
    case Nil
    with assms show ?thesis by simp
  next
    case (Cons f g)
    with assms \<open>a = e # r\<close> show ?thesis
      by (simp add: copies_guarded_def guarded_after_append)
  qed
qed

lemma guarded_after_timers: "guarded_after p (replicate n (SetTimeout t, None))"
  by (induction n arbitrary: p) (simp_all add: is_copy_def)

lemma copies_guarded_timers: "copies_guarded (replicate n (SetTimeout t, None))"
  by (cases n) (simp_all add: copies_guarded_def guarded_after_timers is_copy_def)

lemma guarded_run_refl: "trace w' = trace w \<Longrightarrow> guarded_run w w'"
  by (simp add: guarded_run_def copies_guarded_def)

lemma guarded_run_trans: "guarded_run a b \<Longrightarrow> guarded_run b c \<Longrightarrow> guarded_run a c"
  unfolding guarded_run_def using copies_guarded_append by fastforce

lemma guarded_run_animate: "guarded_run w (animateProgressBar d status steps w)"
  unfolding guarded_run_def
  using animateProgressBar_trace [of d status steps w] copies_guarded_timers by blast

lemma guarded_run_prepared: "guarded_run w (prepared s w)"
proof -
  let ?w = "console_log ''Ensuring the keyboard is ready for writing...''
         (console_log (''Copying '' @ side_name s @ '' firmware to keyboard...'') w)"
  have "guarded_run w ?w" by (rule guarded_run_refl) (simp add: console_fields)
  moreover have "guarded_run ?w (prepared s w)"
    unfolding prepared_def by (rule guarded_run_animate)
  ultimately show ?thesis by (rule guarded_run_trans)
qed

lemma guarded_run_retry_wait: "guarded_run w (retry_wait s n w)"
proof -
  have "guarded_run w (console_warn (retry_notice s n) w)"
    by (rule guarded_run_refl) (simp add: console_fields)
  moreover have "guarded_run (console_warn (retry_notice s n) w) (retry_wait s n w)"
    unfolding retry_wait_def by (rule guarded_run_animate)
  ultimately show ?thesis by (rule guarded_run_trans)
qed

lemma guarded_run_check_and_copy:
  "guarded_run w
     (snd (case fs_access NICENANO_VOLUME W_OK w of
             (Inl e, w4) \<Rightarrow> (Inl e, w4)
           | (Inr u, w4) \<Rightarrow>
               (case fs_copy src dest w4 of
                  (Inl e, w5) \<Rightarrow> (Inl e, w5)
                | (Inr u', w5) \<Rightarrow> (Inr (), k w5))))"
  if k: "\<And>w5. guarded_run w5 (k w5)"
proof -
  obtain r w4 where a: "fs_access NICENANO_VOLUME W_OK w = (r, w4)"
    by (cases "fs_access NICENANO_VOLUME W_OK w")
  then have t4: "trace w4 = trace w @ [(Access NICENANO_VOLUME W_OK, failure r)]"
    using observe_snd_fields(6) [of "Access NICENANO_VOLUME W_OK" "access_check NICENANO_VOLUME W_OK" w]
          observe_fst [of "Access NICENANO_VOLUME W_OK" "access_check NICENANO_VOLUME W_OK" w]
    by (simp add: fs_access_def)
  show ?thesis
  proof (cases r)
    case (Inl e)
    with a t4 show ?thesis
      by (simp add: guarded_run_def copies_guarded_def is_copy_def)
  next
    case (Inr u)
    obtain r' w5 where b: "fs_copy src dest w4 = (r', w5)" by (cases "fs_copy src dest w4")
    then have t5: "trace w5 = trace w4 @ [(Copy src dest, failure r')]"
      using mutate_snd_trace [of "Copy src dest" "copy_node (clock w4) src dest" w4]
      by (simp add: fs_copy_def)
    have g5: "guarded_run w w5"
      unfolding guarded_run_def using t4 t5 Inr
      by (simp add: copies_guarded_def is_copy_def failure_def)
    show ?thesis
    proof (cases r')
      case (Inl e)
      with a b Inr g5 show ?thesis by simp
    next
      case (Inr u')
      with a b \<open>r = Inr u\<close> guarded_run_trans [OF g5 k [of w5]] show ?thesis by simp
    qed
  qed
qed

lemma guarded_run_copy_try: "guarded_run w (snd (copy_try f s w))"
proof -
  have "guarded_run (prepared s w) (snd (copy_try f s w))"
    unfolding copy_try_prepared
  proof (rule guarded_run_check_and_copy)
    fix w5
    let ?w = "console_log ''Waiting for keyboard to restart...''
                (console_log (side_upper s @ '' firmware copied successfully!'') w5)"
    have "guarded_run w5 ?w" by (rule guarded_run_refl) (simp add: console_fields)
    moreover have "guarded_run ?w (animateProgressBar 1000 ''Restarting keyboard...'' 20 ?w)"
      by (rule guarded_run_animate)
    ultimately show "guarded_run w5 (animateProgressBar 1000 ''Restarting keyboard...'' 20 ?w)"
      by (rule guarded_run_trans)
  qed
  with guarded_run_prepared show ?thesis by (rule guarded_run_trans)
qed

lemma guarded_run_copy_loop: "guarded_run w (snd (copy_loop f s r w))"
proof (induction f s r w rule: copy_loop.induct)
  case (1 f s r w)
  show ?case
  proof (cases "r < maxRetries")
    case False
    then show ?thesis by (subst copy_loop.simps) (simp add: guarded_run_refl)
  next
    case True
    show ?thesis
    proof (cases "fst (copy_try f s w)")
      case (Inr u)
      then have "fst (copy_try f s w) = Inr ()" by simp
      from copy_loop_success [OF True this] show ?thesis
        by (simp add: guarded_run_copy_try)
    next
      case (Inl e)
      show ?thesis
      proof (cases "Suc r = maxRetries")
        case True
        have "guarded_run (snd (copy_try f s w))
                (console_error
                  (''Error copying '' @ side_name s @ '' firmware after '' @ show_nat maxRetries @ '' attempts:'')
                  (Some e) (snd (copy_try f s w)))"
          by (rule guarded_run_refl) (simp add: console_fields)
        with guarded_run_copy_try [of w f s] show ?thesis
          unfolding copy_loop_exhausted [OF True Inl] by (auto intro: guarded_run_trans)
      next
        case False
        with \<open>r < maxRetries\<close> have lt: "Suc r < maxRetries" by simp
        obtain w1 where w1: "copy_try f s w = (Inl e, w1)" using Inl by (cases "copy_try f s w") simp
        from lt have n: "\<not> maxRetries \<le> Suc r" by simp
        have "guarded_run (retry_wait s (Suc r) w1) (snd (copy_loop f s (Suc r) (retry_wait s (Suc r) w1)))"
          using "1.IH" [OF \<open>r < maxRetries\<close> w1 [symmetric] refl n]
          by (simp add: retry_wait_def)
        moreover have "guarded_run w w1" using guarded_run_copy_try [of w f s] w1 by simp
        moreover have "guarded_run w1 (retry_wait s (Suc r) w1)" by (rule guarded_run_retry_wait)
        ultimately show ?thesis
          unfolding copy_loop_retry [OF lt Inl] using w1
          by (auto intro: guarded_run_trans)
      qed
    qed
  qed
qed

lemma copy_try_fails_iff:
  "fst (copy_try f s w) = Inl e \<longleftrightarrow>
     fst (fs_access NICENANO_VOLUME W_OK (prepared s w)) = Inl e \<or>
     fst (fs_access NICENANO_VOLUME W_OK (prepared s w)) = Inr () \<and>
     fst (fs_copy f (path_join [NICENANO_VOLUME, path_basename f])
            (snd (fs_access NICENANO_VOLUME W_OK (prepared s w)))) = Inl e"
  unfolding copy_try_prepared by (auto split: prod.splits sum.splits)

lemma still_quiet_until: "still w \<Longrightarrow> quiet_until N w"
  by (simp add: still_def quiet_until_def)

lemma sleep_quiet:
  assumes "quiet_until N w" "ticks w < N"
  shows "disk (sleep t w) = disk w"
  using assms by (simp add: sleep_fields quiet_until_def)

lemma animate_loop_ticks_mono: "ticks w \<le> ticks (animate_loop i st t w)"
proof (induction i st t w rule: animate_loop.induct)
  case (1 i stepSize stepTimeMs w)
  show ?case
  proof (cases "i \<le> 100 \<and> 0 < stepSize")
    case True
    with 1 have "ticks (sleep stepTimeMs w) \<le> ticks (animate_loop (i + stepSize) stepSize stepTimeMs (sleep stepTimeMs w))"
      by blast
    then show ?thesis by (simp add: animate_loop_step [OF True] sleep_fields)
  next
    case False
    then show ?thesis by (simp add: animate_loop_stop)
  qed
qed

lemma animate_loop_quiet:
  "quiet_until N w \<Longrightarrow> ticks (animate_loop i st t w) \<le> N \<Longrightarrow> disk (animate_loop i st t w) = disk w"
proof (induction i st t w rule: animate_loop.induct)
  case (1 i stepSize stepTimeMs w)
  show ?case
  proof (cases "i \<le> 100 \<and> 0 < stepSize")
    case True
    let ?w = "sleep stepTimeMs w"
    have q: "quiet_until N ?w" using "1.prems"(1) by (simp add: quiet_until_def sleep_fields)
    have le: "ticks (animate_loop (i + stepSize) stepSize stepTimeMs ?w) \<le> N"
      using "1.prems"(2) by (simp add: animate_loop_step [OF True])
    from animate_loop_ticks_mono [of ?w "i + stepSize" stepSize stepTimeMs] le
    have "ticks w < N" by (simp add: sleep_fields)
    with "1.prems"(1) have "disk ?w = disk w" by (rule sleep_quiet)
    with "1.IH" [OF True q le] show ?thesis by (simp add: animate_loop_step [OF True])
  next
    case False
    then show ?thesis by (simp add: animate_loop_stop)
  qed
qed

lemma animate_ticks:
  "ticks (animateProgressBar 500 status 10 w) = ticks w + 11"
  "ticks (animateProgressBar 1000 status' 20 w) = ticks w + 21"
  by (simp_all add: animateProgressBar_def animate_loop.simps sleep_fields)

lemma animateProgressBar_outside: "outside (animateProgressBar d status steps w) = outside w"
  by (simp add: animateProgressBar_def animate_loop_outside)

lemma prepared_fields:
  "ticks (prepared s w) = ticks w + 11"
  "outside (prepared s w) = outside w"
  by (simp_all add: prepared_def animate_ticks console_fields animateProgressBar_outside)

lemma prepared_quiet:
  assumes "quiet_until N w" "ticks w + 11 \<le> N"
  shows "disk (prepared s w) = disk w"
proof -
  let ?w = "console_log ''Ensuring the keyboard is ready for writing...''
         (console_log (''Copying '' @ side_name s @ '' firmware to keyboard...'') w)"
  have q: "quiet_until N ?w" using assms(1) by (simp add: quiet_until_def console_fields)
  have "ticks (animate_loop 0 (100 div 10) (500 div 10) ?w) \<le> N"
    using assms(2) animate_ticks(1) [of "''Preparing keyboard for writing...''" ?w]
    by (simp add: animateProgressBar_def console_fields)
  from animate_loop_quiet [OF q this] show ?thesis
    by (simp add: prepared_def animateProgressBar_def console_fields)
qed

lemma retry_wait_fields:
  "ticks (retry_wait s n w) = ticks w + 21"
  "outside (retry_wait s n w) = outside w"
  by (simp_all add: retry_wait_def retryDelay_def animate_ticks console_fields animateProgressBar_outside)

lemma retry_wait_quiet:
  assumes "quiet_until N w" "ticks w + 21 \<le> N"
  shows "disk (retry_wait s n w) = disk w"
proof -
  let ?w = "console_warn (retry_notice s n) w"
  let ?status = "''Retry attempt '' @ show_nat n @ ''/'' @ show_nat maxRetries @ ''...''"
  have q: "quiet_until N ?w" using assms(1) by (simp add: quiet_until_def console_fields)
  have "ticks (animate_loop 0 (100 div 20) (1000 div 20) ?w) \<le> N"
    using assms(2) animate_ticks(2) [of ?status ?w]
    by (simp add: animateProgressBar_def console_fields)
  from animate_loop_quiet [OF q this] show ?thesis
    by (simp add: retry_wait_def retryDelay_def animateProgressBar_def console_fields)
qed

lemma copy_try_blocked:
  assumes q: "quiet_until N w" and t: "ticks w + 12 \<le> N"
    and a: "access_check NICENANO_VOLUME W_OK (disk w) = Inl e"
  shows "fst (copy_try f s w) = Inl e"
    and "disk (snd (copy_try f s w)) = disk w"
    and "ticks (snd (copy_try f s w)) = ticks w + 12"
    and "outside (snd (copy_try f s w)) = outside w"
proof -
  from t have "ticks w + 11 \<le> N" by arith
  with q have d: "disk (prepared s w) = disk w" by (rule prepared_quiet)
  have o: "outside (prepared s w) (ticks (prepared s w)) = (\<lambda>d. d)"
    using q t by (simp add: prepared_fields quiet_until_def)
  have r: "fst (fs_access NICENANO_VOLUME W_OK (prepared s w)) = Inl e"
    using a d o by (simp add: fs_access_def observe_fst)
  then obtain w4 where w4: "fs_access NICENANO_VOLUME W_OK (prepared s w) = (Inl e, w4)"
    by (cases "fs_access NICENANO_VOLUME W_OK (prepared s w)") simp
  then have c: "copy_try f s w = (Inl e, snd (fs_access NICENANO_VOLUME W_OK (prepared s w)))"
    unfolding copy_try_prepared by simp
  show "fst (copy_try f s w) = Inl e" using c by simp
  show "disk (snd (copy_try f s w)) = disk w"
    using c d o by (simp add: fs_access_def observe_snd_fields)
  show "ticks (snd (copy_try f s w)) = ticks w + 12"
    using c by (simp add: fs_access_def observe_snd_fields prepared_fields)
  show "outside (snd (copy_try f s w)) = outside w"
    using c by (simp add: fs_access_def observe_snd_fields prepared_fields)
qed

lemma attempt_world_blocked:
  assumes q: "quiet_until N w" and a: "access_check NICENANO_VOLUME W_OK (disk w) = Inl e"
  shows "ticks w + 33 * k \<le> N \<Longrightarrow>
     disk (attempt_world r f s k w) = disk w \<and>
     ticks (attempt_world r f s k w) = ticks w + 33 * k \<and>
     outside (attempt_world r f s k w) = outside w"
proof (induction k)
  case 0
  then show ?case by simp
next
  case (Suc k)
  let ?a = "attempt_world r f s k w"
  from Suc have ih: "disk ?a = disk w" "ticks ?a = ticks w + 33 * k" "outside ?a = outside w"
    by simp_all
  have qa: "quiet_until N ?a" using q ih(2,3) by (simp add: quiet_until_def)
  have ta: "ticks ?a + 12 \<le> N" using Suc.prems ih(2) by simp
  have aa: "access_check NICENANO_VOLUME W_OK (disk ?a) = Inl e" using a ih(1) by simp
  let ?b = "snd (copy_try f s ?a)"
  note b = copy_try_blocked(2-4) [OF qa ta aa, of f s]
  have qb: "quiet_until N ?b" using qa b(2,3) by (simp add: quiet_until_def)
  have tb: "ticks ?b + 21 \<le> N" using Suc.prems ih(2) b(2) by simp
  show ?case
    using retry_wait_quiet [OF qb tb, of s "r + Suc k"] retry_wait_fields [of s "r + Suc k" ?b] b ih
    by simp
qed

lemma attempt_blocked:
  assumes q: "quiet_until N w" and a: "access_check NICENANO_VOLUME W_OK (disk w) = Inl e"
    and t: "ticks w + 33 * k + 12 \<le> N"
  shows "fst (copy_try f s (attempt_world r f s k w)) = Inl e"
proof -
  let ?a = "attempt_world r f s k w"
  from t have "ticks w + 33 * k \<le> N" by simp
  from attempt_world_blocked [OF q a this, of r f s]
  have ih: "disk ?a = disk w" "ticks ?a = ticks w + 33 * k" "outside ?a = outside w" by simp_all
  have qa: "quiet_until N ?a" using q ih(2,3) by (simp add: quiet_until_def)
  have ta: "ticks ?a + 12 \<le> N" using t ih(2) by simp
  have aa: "access_check NICENANO_VOLUME W_OK (disk ?a) = Inl e" using a ih(1) by simp
  show ?thesis by (rule copy_try_blocked(1) [OF qa ta aa])
qed

lemma evolve_add: "evolve out t (n + m) d = evolve out (t + n) m (evolve out t n d)"
  by (induction n arbitrary: t d) simp_all

lemma evolve_numeral: "evolve out t (numeral k) d = evolve out (Suc t) (pred_numeral k) (out t d)"
  by (simp add: numeral_eq_Suc)

lemma sleep_evolve: "disk (sleep ms w) = evolve (outside w) (ticks w) 1 (disk w)"
  by (simp add: sleep_fields)

lemma animate_loop_evolve:
  "disk (animate_loop i st t w) =
     evolve (outside w) (ticks w) (ticks (animate_loop i st t w) - ticks w) (disk w)"
proof (induction i st t w rule: animate_loop.induct)
  case (1 i stepSize stepTimeMs w)
  show ?case
  proof (cases "i \<le> 100 \<and> 0 < stepSize")
    case True
    let ?w = "sleep stepTimeMs w"
    let ?r = "animate_loop (i + stepSize) stepSize stepTimeMs ?w"
    have m: "Suc (ticks w) \<le> ticks ?r"
      using animate_loop_ticks_mono [of ?w "i + stepSize" stepSize stepTimeMs] by (simp add: sleep_fields)
    then have e: "ticks ?r - ticks w = Suc (ticks ?r - Suc (ticks w))" by arith
    from "1.IH" [OF True]
    have "disk ?r = evolve (outside w) (Suc (ticks w)) (ticks ?r - Suc (ticks w))
                      (outside w (ticks w) (disk w))"
      by (simp add: sleep_fields)
    then show ?thesis
      unfolding animate_loop_step [OF True] e by simp
  next
    case False
    then show ?thesis by (simp add: animate_loop_stop)
  qed
qed

lemma prepared_evolve: "disk (prepared s w) = evolve (outside w) (ticks w) 11 (disk w)"
proof -
  let ?w = "console_log ''Ensuring the keyboard is ready for writing...''
         (console_log (''Copying '' @ side_name s @ '' firmware to keyboard...'') w)"
  have t: "ticks (animate_loop 0 (100 div 10) (500 div 10) ?w) = ticks w + 11"
    using animate_ticks(1) [of "''Preparing keyboard for writing...''" ?w]
    by (simp add: animateProgressBar_def console_fields)
  show ?thesis
    unfolding prepared_def animateProgressBar_def animate_loop_evolve t
    by (simp add: console_fields)
qed

lemma mutate_fst:
  "fst (mutate c f w) = (case f (outside w (ticks w) (disk w)) of Inl e \<Rightarrow> Inl e | Inr d \<Rightarrow> Inr ())"
  by (simp add: mutate_def Let_def await_def split: sum.splits)

lemma observe_snd_calm: "clock (snd (observe c f w)) = clock w"
  by (rule observe_snd_fields(4))

lemma copy_try_result:
  "fst (copy_try f s w) =
     (case access_check NICENANO_VOLUME W_OK (evolve (outside w) (ticks w) 12 (disk w)) of
        Inl e \<Rightarrow> Inl e
      | Inr u \<Rightarrow>
          (case copy_node (clock (prepared s w)) f (path_join [NICENANO_VOLUME, path_basename f])
                  (evolve (outside w) (ticks w) 13 (disk w)) of
             Inl e \<Rightarrow> Inl e
           | Inr d \<Rightarrow> Inr ()))"
proof -
  let ?p = "prepared s w"
  let ?a = "fs_access NICENANO_VOLUME W_OK ?p"
  have e12: "outside w (ticks w + 11) (evolve (outside w) (ticks w) 11 (disk w))
               = evolve (outside w) (ticks w) 12 (disk w)"
    using evolve_add [of "outside w" "ticks w" 11 1 "disk w"] by simp
  have e13: "outside w (ticks w + 12) (evolve (outside w) (ticks w) 12 (disk w))
               = evolve (outside w) (ticks w) 13 (disk w)"
    using evolve_add [of "outside w" "ticks w" 12 1 "disk w"] by simp
  have a: "fst ?a = access_check NICENANO_VOLUME W_OK (evolve (outside w) (ticks w) 12 (disk w))"
    by (simp add: fs_access_def observe_fst prepared_fields prepared_evolve e12)
  have s: "outside (snd ?a) = outside w" "ticks (snd ?a) = ticks w + 12"
    "disk (snd ?a) = evolve (outside w) (ticks w) 12 (disk w)" "clock (snd ?a) = clock ?p"
    by (simp_all add: fs_access_def observe_snd_fields prepared_fields prepared_evolve e12)
  have c: "fst (fs_copy f dest (snd ?a)) =
      (case copy_node (clock ?p) f dest (evolve (outside w) (ticks w) 13 (disk w)) of
         Inl e \<Rightarrow> Inl e | Inr d \<Rightarrow> Inr ())" for dest
    by (simp add: fs_copy_def mutate_fst s e13)
  show ?thesis
    unfolding copy_try_prepared a [symmetric] c [symmetric]
    by (auto split: prod.splits sum.splits)
qed

lemmas disk_defs =
  demo_world_def flash_disk_def demo_disk_def plain_dir_def quiet_def mount_volume_def
  unmount_volume_def under_def NICENANO_VOLUME_def access_check_def copy_node_def is_writable_dir_def
  path_join_def path_normalize_def path_basename_def path_dirname_def join_with_def Let_def
  evolve_numeral

text \<open>
  Claim C1. Every attempt of \<^verbatim>\<open>copyFirmwareToKeyboard\<close> checks that the mount path is writable and
  copies directly after that check succeeded, never otherwise; an attempt fails exactly when
  its check or its copy fails, and every failure counts. If the attempts before the \<open>k\<close>-th
  (counting from 0, \<open>k\<close> below 5) fail and the \<open>k\<close>-th succeeds, the operation succeeds from that
  attempt, having made \<open>k + 1\<close> attempts: four failures and a success are exactly 5 attempts.
  If all five attempts fail, the error of the fifth is the error raised, after exactly 5
  attempts. There is never a sixth.
\<close>

theorem copy_retries_at_most_five:
  "(\<forall>k. k < maxRetries \<and> (\<forall>j<k. \<exists>e. fst (attempt f s j w) = Inl e) \<and> fst (attempt f s k w) = Inr () \<longrightarrow>
       copyFirmwareToKeyboard f s w = (Inr (), snd (attempt f s k w)) \<and>
       writability_checks (snd (copyFirmwareToKeyboard f s w)) = writability_checks w + k + 1) \<and>
   (\<forall>e. (\<forall>j<4. \<exists>e'. fst (attempt f s j w) = Inl e') \<and> fst (attempt f s 4 w) = Inl e \<longrightarrow>
       fst (copyFirmwareToKeyboard f s w) = Inl e \<and>
       writability_checks (snd (copyFirmwareToKeyboard f s w)) = writability_checks w + 5) \<and>
   writability_checks (snd (copyFirmwareToKeyboard f s w)) \<le> writability_checks w + 5 \<and>
   guarded_run w (snd (copyFirmwareToKeyboard f s w)) \<and>
   (\<forall>w0 e. fst (copy_try f s w0) = Inl e \<longleftrightarrow>
       fst (fs_access NICENANO_VOLUME W_OK (prepared s w0)) = Inl e \<or>
       fst (fs_access NICENANO_VOLUME W_OK (prepared s w0)) = Inr () \<and>
       fst (fs_copy f (path_join [NICENANO_VOLUME, path_basename f])
              (snd (fs_access NICENANO_VOLUME W_OK (prepared s w0)))) = Inl e)"
proof -
  have A: "copyFirmwareToKeyboard f s w = (Inr (), snd (attempt f s k w)) \<and>
       writability_checks (snd (copyFirmwareToKeyboard f s w)) = writability_checks w + k + 1"
    if "k < maxRetries" "\<forall>j<k. \<exists>e. fst (attempt f s j w) = Inl e" "fst (attempt f s k w) = Inr ()" for k
  proof -
    have "copy_loop f s 0 w = (Inr (), snd (copy_try f s (attempt_world 0 f s k w)))"
      using that by (intro copy_loop_succeeds_at) (simp_all add: attempt_def)
    then show ?thesis
      by (simp add: copyFirmwareToKeyboard_def attempt_def checks_copy_try checks_attempt_world)
  qed
  have B: "fst (copyFirmwareToKeyboard f s w) = Inl e \<and>
       writability_checks (snd (copyFirmwareToKeyboard f s w)) = writability_checks w + 5"
    if "\<forall>j<4. \<exists>e'. fst (attempt f s j w) = Inl e'" "fst (attempt f s 4 w) = Inl e" for e
  proof -
    have "copy_loop f s 0 w =
       (Inl e, console_error
          (''Error copying '' @ side_name s @ '' firmware after '' @ show_nat maxRetries @ '' attempts:'')
          (Some e) (snd (copy_try f s (attempt_world 0 f s 4 w))))"
      using that by (intro copy_loop_exhausts_at) (simp_all add: attempt_def maxRetries_def)
    then show ?thesis
      by (simp add: copyFirmwareToKeyboard_def checks_console checks_copy_try checks_attempt_world)
  qed
  have C: "writability_checks (snd (copyFirmwareToKeyboard f s w)) \<le> writability_checks w + 5"
    using checks_copy_loop_bound [of f s 0 w] by (simp add: copyFirmwareToKeyboard_def maxRetries_def)
  have D: "guarded_run w (snd (copyFirmwareToKeyboard f s w))"
    by (simp add: copyFirmwareToKeyboard_def guarded_run_copy_loop)
  from A B C D copy_try_fails_iff [of f s] show ?thesis by blast
qed

theorem copy_retries_at_most_five_witness:
  "fst (attempt ''/tmp/fw/sofle_left.uf2'' Left 3
          (demo_world (flash_disk False) (\<lambda>n. if n = 135 then mount_volume True else quiet n)))
     = Inl (EACCES NICENANO_VOLUME) \<and>
   fst (attempt ''/tmp/fw/sofle_left.uf2'' Left 4
          (demo_world (flash_disk False) (\<lambda>n. if n = 135 then mount_volume True else quiet n)))
     = Inr () \<and>
   fst (copyFirmwareToKeyboard ''/tmp/fw/sofle_left.uf2'' Left
          (demo_world (flash_disk False) (\<lambda>n. if n = 135 then mount_volume True else quiet n)))
     = Inr () \<and>
   writability_checks (snd (copyFirmwareToKeyboard ''/tmp/fw/sofle_left.uf2'' Left
          (demo_world (flash_disk False) (\<lambda>n. if n = 135 then mount_volume True else quiet n))))
     = 5 \<and>
   fst (attempt ''/tmp/fw/sofle_left.uf2'' Left 4 (demo_world (flash_disk False) quiet))
     = Inl (EACCES NICENANO_VOLUME) \<and>
   fst (copyFirmwareToKeyboard ''/tmp/fw/sofle_left.uf2'' Left (demo_world (flash_disk False) quiet))
     = Inl (EACCES NICENANO_VOLUME) \<and>
   writability_checks (snd (copyFirmwareToKeyboard ''/tmp/fw/sofle_left.uf2'' Left
          (demo_world (flash_disk False) quiet))) = 5"
proof -
  let ?f = "''/tmp/fw/sofle_left.uf2''"
  let ?out = "\<lambda>n. if n = 135 then mount_volume True else quiet n"
  let ?w = "demo_world (flash_disk False) ?out"
  let ?v = "demo_world (flash_disk False) quiet"
  have t0: "ticks ?w = 0" "ticks ?v = 0" by (simp_all add: demo_world_def)
  have c0: "writability_checks ?w = 0" "writability_checks ?v = 0"
    by (simp_all add: demo_world_def writability_checks_def)
  have q: "quiet_until 135 ?w"
    by (simp add: quiet_until_def demo_world_def quiet_def fun_eq_iff)
  have a: "access_check NICENANO_VOLUME W_OK (disk ?w) = Inl (EACCES NICENANO_VOLUME)"
    by (simp add: disk_defs)
  have early: "fst (attempt ?f Left j ?w) = Inl (EACCES NICENANO_VOLUME)" if "j < 4" for j
    unfolding attempt_def using that t0 by (intro attempt_blocked [OF q a]) simp
  have "ticks ?w + 33 * 4 \<le> 135" using t0 by simp
  from attempt_world_blocked [OF q a this, of 0 ?f Left]
  have f4: "disk (attempt_world 0 ?f Left 4 ?w) = disk ?w"
    "ticks (attempt_world 0 ?f Left 4 ?w) = 132"
    "outside (attempt_world 0 ?f Left 4 ?w) = ?out"
    using t0 by (simp_all add: demo_world_def)
  have late: "fst (attempt ?f Left 4 ?w) = Inr ()"
    unfolding attempt_def copy_try_result f4 by (simp add: disk_defs)
  have "4 < maxRetries" by (simp add: maxRetries_def)
  moreover have "\<forall>j<4. \<exists>e. fst (attempt ?f Left j ?w) = Inl e" using early by blast
  ultimately have X:
    "copyFirmwareToKeyboard ?f Left ?w = (Inr (), snd (attempt ?f Left 4 ?w)) \<and>
     writability_checks (snd (copyFirmwareToKeyboard ?f Left ?w)) = writability_checks ?w + 4 + 1"
    using copy_retries_at_most_five [of ?f Left ?w] late by blast
  from X have A1: "fst (copyFirmwareToKeyboard ?f Left ?w) = Inr ()" by simp
  from X have "writability_checks (snd (copyFirmwareToKeyboard ?f Left ?w)) = writability_checks ?w + 4 + 1"
    by (rule conjunct2)
  then have A2: "writability_checks (snd (copyFirmwareToKeyboard ?f Left ?w)) = 5"
    unfolding c0 by simp
  have s: "quiet_until N ?v" for N by (rule still_quiet_until [OF still_demo_world])
  have b: "access_check NICENANO_VOLUME W_OK (disk ?v) = Inl (EACCES NICENANO_VOLUME)"
    by (simp add: disk_defs)
  have never: "fst (attempt ?f Left j ?v) = Inl (EACCES NICENANO_VOLUME)" for j
    unfolding attempt_def
    by (rule attempt_blocked [OF s [of "ticks ?v + 33 * j + 12"] b]) simp
  then have "\<forall>j<4. \<exists>e'. fst (attempt ?f Left j ?v) = Inl e'" by blast
  with never [of 4] have Y:
    "fst (copyFirmwareToKeyboard ?f Left ?v) = Inl (EACCES NICENANO_VOLUME) \<and>
     writability_checks (snd (copyFirmwareToKeyboard ?f Left ?v)) = writability_checks ?v + 5"
    using copy_retries_at_most_five [of ?f Left ?v] by blast
  from Y have B1: "fst (copyFirmwareToKeyboard ?f Left ?v) = Inl (EACCES NICENANO_VOLUME)"
    by (rule conjunct1)
  from Y have "writability_checks (snd (copyFirmwareToKeyboard ?f Left ?v)) = writability_checks ?v + 5"
    by (rule conjunct2)
  then have B2: "writability_checks (snd (copyFirmwareToKeyboard ?f Left ?v)) = 5"
    unfolding c0 by simp
  have e3: "fst (attempt ?f Left 3 ?w) = Inl (EACCES NICENANO_VOLUME)" by (rule early) simp
  show ?thesis
    by (intro conjI) (rule e3, rule late, rule A1, rule A2, rule never, rule B1, rule B2)
qed

section \<open>What a successful copy leaves behind\<close>

declare mkdirs.simps [simp del] show_digits.simps [simp del]















end
